theory Spec2Isabelle
  imports Main "HOL-Library.Char_ord" "HOL-Library.List_Lexorder" "HOL-Library.Multiset"
begin

section \<open>Data model\<close>

text \<open>
  The program stitches carsharing booking logs (pandas DataFrames read from CSV files)
  into one timeline. A timestamp is a pandas \<open>Timestamp\<close>: a count of nanoseconds since
  the epoch, or \<open>NaT\<close> ("not a time"), which is what \<open>Series.max()\<close> and \<open>Series.min()\<close>
  return on a column with no valid entry. \<open>None\<close> is \<open>NaT\<close>. A duration
  (\<open>Timedelta\<close>) is a count of nanoseconds too, or \<open>NaT\<close>. pandas keeps both in 64 bits;
  the subtraction of two timestamps and the construction of a \<open>datetime.timedelta\<close> are
  the two places where the program can leave the range, and both raise there.
\<close>

type_synonym timestamp = "int option"
type_synonym timedelta = "int option"

text \<open>One row of a DataFrame, with the five columns the program names.\<close>

record row =
  anfang :: timestamp
  ende :: timestamp
  fahrt_anfang :: timestamp
  fahrt_ende :: timestamp
  fahrtneu_id :: int

type_synonym dataframe = "row list"

text \<open>
  A Python value as \<open>merge_nonoverlapping_dfs\<close> may receive it: the function tests its
  argument with \<open>isinstance\<close>, so the model keeps the dynamic type.
\<close>

datatype pyobj = DataFrame dataframe | PyList "pyobj list" | PyOther

text \<open>
  The f-string of each \<open>assert\<close>: the two positions \<open>i\<close>, \<open>i+1\<close> for the overlap checks,
  and \<open>threshold_hours\<close>, \<open>csv_files_sorted[i]\<close>, \<open>csv_files_sorted[i+1]\<close> for the gap check.
\<close>

datatype assert_msg =
    DifferentLengths nat nat
  | DoNotAlign nat nat
  | GapGreater int string string

datatype error =
    ParseError
  | ValueError
  | IndexError
  | OutOfBoundsDatetime
  | OverflowError
  | AssertionError assert_msg

type_synonym 'a result = "error + 'a"

text \<open>The names the specification gives to these errors.\<close>

abbreviation InvalidInput :: error where
  "InvalidInput \<equiv> ValueError"

abbreviation OverlapLengthMismatch :: "nat \<Rightarrow> nat \<Rightarrow> error" where
  "OverlapLengthMismatch i j \<equiv> AssertionError (DifferentLengths i j)"

abbreviation OverlapIdentityMismatch :: "nat \<Rightarrow> nat \<Rightarrow> error" where
  "OverlapIdentityMismatch i j \<equiv> AssertionError (DoNotAlign i j)"

abbreviation GapTooLarge :: "int \<Rightarrow> string \<Rightarrow> string \<Rightarrow> error" where
  "GapTooLarge h f g \<equiv> AssertionError (GapGreater h f g)"

text \<open>
  The record \<open>logging.warning\<close> writes in the gap check: the two file names, the last
  date of the current frame and the first date of the next.
\<close>

record warning =
  file_current :: string
  file_next :: string
  last_date :: timestamp
  first_date :: timestamp

section \<open>Timestamps and columns\<close>

text \<open>Comparisons with \<open>NaT\<close> are false, on scalars and elementwise on columns.\<close>

fun ts_ge :: "timestamp \<Rightarrow> timestamp \<Rightarrow> bool" where
  "ts_ge (Some a) (Some b) = (a \<ge> b)"
| "ts_ge _ _ = False"

fun ts_gt :: "timestamp \<Rightarrow> timestamp \<Rightarrow> bool" where
  "ts_gt (Some a) (Some b) = (a > b)"
| "ts_gt _ _ = False"

fun ts_le :: "timestamp \<Rightarrow> timestamp \<Rightarrow> bool" where
  "ts_le (Some a) (Some b) = (a \<le> b)"
| "ts_le _ _ = False"

text \<open>
  The largest \<open>Timedelta\<close>, \<open>2^63 - 1\<close> nanoseconds (about 292 years); the smallest is its
  negative.
\<close>

definition timedelta_max :: int where
  "timedelta_max = 9223372036854775807"

text \<open>
  \<open>first - last\<close> on two timestamps: a \<open>Timedelta\<close>, \<open>NaT\<close> when either side is, and
  \<open>OutOfBoundsDatetime\<close> when the difference does not fit a \<open>Timedelta\<close>.
\<close>

fun ts_sub :: "timestamp \<Rightarrow> timestamp \<Rightarrow> timedelta result" where
  "ts_sub (Some a) (Some b) =
     (if a - b < - timedelta_max \<or> timedelta_max < a - b then Inl OutOfBoundsDatetime
      else Inr (Some (a - b)))"
| "ts_sub _ _ = Inr None"

text \<open>One hour in nanoseconds.\<close>

definition hour_ns :: int where
  "hour_ns = 3600000000000"

text \<open>
  \<open>timedelta(hours=h)\<close> for an integer \<open>h\<close>, in nanoseconds. Python normalises to days
  and seconds and raises \<open>OverflowError\<close> unless the days lie within \<open>999999999\<close> of zero.
\<close>

definition timedelta_hours :: "int \<Rightarrow> int result" where
  "timedelta_hours h =
     (if - 999999999 \<le> h div 24 \<and> h div 24 \<le> 999999999 then Inr (h * hour_ns)
      else Inl OverflowError)"

text \<open>
  \<open>time_diff <= timedelta(...)\<close>: false on \<open>NaT\<close>, and otherwise the comparison of the
  two durations, also when the \<open>datetime.timedelta\<close> is longer than any \<open>Timedelta\<close>.
\<close>

fun td_le :: "timedelta \<Rightarrow> int \<Rightarrow> bool" where
  "td_le (Some d) t = (d \<le> t)"
| "td_le None t = False"

text \<open>\<open>Series.max()\<close> and \<open>Series.min()\<close> skip \<open>NaT\<close> and return \<open>NaT\<close> when nothing is left.\<close>

fun dropna :: "timestamp list \<Rightarrow> int list" where
  "dropna [] = []"
| "dropna (None # xs) = dropna xs"
| "dropna (Some x # xs) = x # dropna xs"

definition series_max :: "timestamp list \<Rightarrow> timestamp" where
  "series_max xs = (case dropna xs of [] \<Rightarrow> None | y # ys \<Rightarrow> Some (fold max ys y))"

definition series_min :: "timestamp list \<Rightarrow> timestamp" where
  "series_min xs = (case dropna xs of [] \<Rightarrow> None | y # ys \<Rightarrow> Some (fold min ys y))"

text \<open>\<open>df["anfang"]\<close> and \<open>df["fahrtneu_id"]\<close>.\<close>

definition col_anfang :: "dataframe \<Rightarrow> timestamp list" where
  "col_anfang df = map anfang df"

definition col_fahrtneu_id :: "dataframe \<Rightarrow> int list" where
  "col_fahrtneu_id df = map fahrtneu_id df"

section \<open>Loops over \<open>range\<close>\<close>

text \<open>
  \<open>for i in range(...)\<close> whose body may raise: the loop stops at the first error. The
  second form also collects what the body logs.
\<close>

fun for_each :: "nat list \<Rightarrow> (nat \<Rightarrow> unit result) \<Rightarrow> unit result" where
  "for_each [] body = Inr ()"
| "for_each (i # is) body =
     (case body i of Inl e \<Rightarrow> Inl e | Inr _ \<Rightarrow> for_each is body)"

fun for_each_log ::
  "nat list \<Rightarrow> (nat \<Rightarrow> warning list \<times> unit result) \<Rightarrow> warning list \<times> unit result" where
  "for_each_log [] body = ([], Inr ())"
| "for_each_log (i # is) body =
     (case body i of
        (ws, Inl e) \<Rightarrow> (ws, Inl e)
      | (ws, Inr _) \<Rightarrow> (case for_each_log is body of (ws', r) \<Rightarrow> (ws @ ws', r)))"

section \<open>The merger: \<open>merge_nonoverlapping_dfs\<close>\<close>

fun is_DataFrame :: "pyobj \<Rightarrow> bool" where
  "is_DataFrame (DataFrame _) = True"
| "is_DataFrame _ = False"

fun frame_of :: "pyobj \<Rightarrow> dataframe" where
  "frame_of (DataFrame df) = df"
| "frame_of _ = []"

text \<open>
  One pass of the loop body: the rows of \<open>df_list_sorted[i]\<close> later than the maximum of
  \<open>master_df\<close>, concatenated to \<open>master_df\<close>.
\<close>

definition merge_body :: "dataframe list \<Rightarrow> dataframe \<Rightarrow> nat \<Rightarrow> dataframe" where
  "merge_body dfs master_df i =
     (let last_date_master_df = series_max (col_anfang master_df);
          new_data = filter (\<lambda>r. ts_gt (anfang r) last_date_master_df) (dfs ! i)
      in master_df @ new_data)"

definition merge_nonoverlapping_dfs :: "pyobj \<Rightarrow> dataframe result" where
  "merge_nonoverlapping_dfs df_list_sorted =
     (case df_list_sorted of
        PyList xs \<Rightarrow>
          if \<not> list_all is_DataFrame xs then Inl ValueError
          else (case xs of
                  [] \<Rightarrow> Inl IndexError
                | x # _ \<Rightarrow>
                    Inr (foldl (merge_body (map frame_of xs)) (frame_of x) [1..<length xs]))
      | _ \<Rightarrow> Inl ValueError)"

section \<open>The overlap validator: \<open>verify_overlapping_bookings\<close>\<close>

definition overlap_body :: "dataframe list \<Rightarrow> nat \<Rightarrow> unit result" where
  "overlap_body dfs i =
     (let last_date_current_df = series_max (col_anfang (dfs ! i));
          first_date_next_df = series_min (col_anfang (dfs ! (i + 1)))
      in if ts_ge last_date_current_df first_date_next_df then
           (let overlap_current_df =
                  filter (\<lambda>r. ts_ge (anfang r) first_date_next_df) (dfs ! i);
                overlap_next_df =
                  filter (\<lambda>r. ts_le (anfang r) last_date_current_df) (dfs ! (i + 1))
            in if length overlap_current_df \<noteq> length overlap_next_df
               then Inl (OverlapLengthMismatch i (i + 1))
               else if set (col_fahrtneu_id overlap_current_df)
                        \<noteq> set (col_fahrtneu_id overlap_next_df)
               then Inl (OverlapIdentityMismatch i (i + 1))
               else Inr ())
         else Inr ())"

definition verify_overlapping_bookings :: "dataframe list \<Rightarrow> unit result" where
  "verify_overlapping_bookings dfs = for_each [0..<length dfs - 1] (overlap_body dfs)"

section \<open>The gap validator: \<open>assert_time_difference_in_bookings\<close>\<close>

text \<open>
  In the order of the source: the subtraction \<open>first - last\<close>, which may raise
  \<open>OutOfBoundsDatetime\<close>; the message of the \<open>assert\<close>, built before the test, so that a
  list of file names that is too short raises \<open>IndexError\<close> there; the threshold
  \<open>timedelta(hours=threshold_hours)\<close>, which may raise \<open>OverflowError\<close>; the test; the
  warning.
\<close>

definition gap_body ::
  "dataframe list \<Rightarrow> string list \<Rightarrow> int \<Rightarrow> nat \<Rightarrow> warning list \<times> unit result" where
  "gap_body dfs csv_files_sorted threshold_hours i =
     (let last_date_current_df = series_max (col_anfang (dfs ! i));
          first_date_next_df = series_min (col_anfang (dfs ! (i + 1)))
      in if \<not> ts_ge last_date_current_df first_date_next_df then
           (case ts_sub first_date_next_df last_date_current_df of
              Inl e \<Rightarrow> ([], Inl e)
            | Inr time_diff \<Rightarrow>
                if \<not> (i + 1 < length csv_files_sorted) then ([], Inl IndexError)
                else (case timedelta_hours threshold_hours of
                        Inl e \<Rightarrow> ([], Inl e)
                      | Inr limit \<Rightarrow>
                          if \<not> td_le time_diff limit
                          then ([], Inl (GapTooLarge threshold_hours
                                           (csv_files_sorted ! i) (csv_files_sorted ! (i + 1))))
                          else ([\<lparr>file_current = csv_files_sorted ! i,
                                  file_next = csv_files_sorted ! (i + 1),
                                  last_date = last_date_current_df,
                                  first_date = first_date_next_df\<rparr>], Inr ())))
         else ([], Inr ()))"

text \<open>The default of the parameter \<open>threshold_hours\<close>.\<close>

definition threshold_hours_default :: int where
  "threshold_hours_default = 6"

definition assert_time_difference_in_bookings ::
  "dataframe list \<Rightarrow> string list \<Rightarrow> int \<Rightarrow> warning list \<times> unit result" where
  "assert_time_difference_in_bookings dfs csv_files_sorted threshold_hours =
     for_each_log [0..<length dfs - 1] (gap_body dfs csv_files_sorted threshold_hours)"

section \<open>The sequencer: \<open>load_and_sort_fahrten_data\<close>\<close>

text \<open>
  Reading a file (\<open>pd.read_csv\<close>) and parsing the four timestamp columns of a frame
  (\<open>pd.to_datetime\<close>) belong to pandas: both are parameters. All files are read, in
  sorted order, before any column is parsed. Python compares strings by code point,
  which is the lexicographic order on \<open>char list\<close>.
\<close>

fun map_result :: "('a \<Rightarrow> 'b result) \<Rightarrow> 'a list \<Rightarrow> 'b list result" where
  "map_result f [] = Inr []"
| "map_result f (x # xs) =
     (case f x of
        Inl e \<Rightarrow> Inl e
      | Inr y \<Rightarrow> (case map_result f xs of Inl e \<Rightarrow> Inl e | Inr ys \<Rightarrow> Inr (y # ys)))"

definition load_and_sort_fahrten_data ::
  "(string \<Rightarrow> 'raw result) \<Rightarrow> ('raw \<Rightarrow> dataframe result) \<Rightarrow> string list
     \<Rightarrow> (dataframe list \<times> string list) result" where
  "load_and_sort_fahrten_data read_csv to_datetime csv_files =
     (let csv_files_sorted = sort csv_files
      in case map_result read_csv csv_files_sorted of
           Inl e \<Rightarrow> Inl e
         | Inr raw_list \<Rightarrow>
             (case map_result to_datetime raw_list of
                Inl e \<Rightarrow> Inl e
              | Inr df_list_sorted \<Rightarrow> Inr (df_list_sorted, csv_files)))"

section \<open>The pipeline: \<open>combine_and_verify_booking_data\<close>\<close>

text \<open>The result comes with the warnings logged on the way.\<close>

definition combine_and_verify_booking_data ::
  "(string \<Rightarrow> 'raw result) \<Rightarrow> ('raw \<Rightarrow> dataframe result) \<Rightarrow> string list
     \<Rightarrow> warning list \<times> dataframe result" where
  "combine_and_verify_booking_data read_csv to_datetime csv_files =
     (case load_and_sort_fahrten_data read_csv to_datetime csv_files of
        Inl e \<Rightarrow> ([], Inl e)
      | Inr (df_list_sorted, csv_files_sorted) \<Rightarrow>
          (case verify_overlapping_bookings df_list_sorted of
             Inl e \<Rightarrow> ([], Inl e)
           | Inr _ \<Rightarrow>
               (case assert_time_difference_in_bookings df_list_sorted csv_files_sorted
                       threshold_hours_default of
                  (ws, Inl e) \<Rightarrow> (ws, Inl e)
                | (ws, Inr _) \<Rightarrow>
                    (ws, merge_nonoverlapping_dfs (PyList (map DataFrame df_list_sorted))))))"

section \<open>The merger as the specification words it\<close>

text \<open>
  The specification describes the merger as a running merged set: start from the first
  record set and, for each further set \<open>S\<close> in order, append the rows of \<open>S\<close> whose
  \<open>anfang\<close> is strictly greater than the maximum \<open>anfang\<close> of the merged set so far.
  These two definitions follow those words; they are compared with the loop above.
\<close>

definition spec_merge_step :: "dataframe \<Rightarrow> dataframe \<Rightarrow> dataframe" where
  "spec_merge_step merged S =
     merged @ filter (\<lambda>r. ts_gt (anfang r) (series_max (col_anfang merged))) S"

definition spec_merge :: "dataframe \<Rightarrow> dataframe list \<Rightarrow> dataframe" where
  "spec_merge A rest = foldl spec_merge_step A rest"

text \<open>
  The value of \<open>master_df\<close> when the loop of \<open>merge_nonoverlapping_dfs\<close> enters
  iteration \<open>i\<close>, and the running maximum \<open>last_date_master_df\<close> computed there.
\<close>

definition master_before :: "dataframe list \<Rightarrow> nat \<Rightarrow> dataframe" where
  "master_before dfs i = foldl (merge_body dfs) (dfs ! 0) [1..<i]"

definition running_max :: "dataframe list \<Rightarrow> nat \<Rightarrow> timestamp" where
  "running_max dfs i = series_max (col_anfang (master_before dfs i))"

text \<open>The rows \<open>new_data\<close> that iteration \<open>i\<close> appends.\<close>

definition new_data :: "dataframe list \<Rightarrow> nat \<Rightarrow> dataframe" where
  "new_data dfs i = filter (\<lambda>r. ts_gt (anfang r) (running_max dfs i)) (dfs ! i)"

text \<open>Rewriting the booking identifier of every row of a frame.\<close>

definition relabel :: "(row \<Rightarrow> int) \<Rightarrow> dataframe \<Rightarrow> dataframe" where
  "relabel f df = map (\<lambda>r. r\<lparr>fahrtneu_id := f r\<rparr>) df"

text \<open>
  Both validators apply the same test to an adjacent pair, on the maximum \<open>anfang\<close> of
  the current frame and the minimum \<open>anfang\<close> of the next: the specification's boundary
  classification.
\<close>

datatype boundary = Overlapping | Gapped

definition classify :: "dataframe \<Rightarrow> dataframe \<Rightarrow> boundary" where
  "classify current_df next_df =
     (if ts_ge (series_max (col_anfang current_df)) (series_min (col_anfang next_df))
      then Overlapping else Gapped)"

text \<open>A booking that starts at \<open>t\<close>, for the worked examples.\<close>

definition booking :: "int \<Rightarrow> int \<Rightarrow> row" where
  "booking t n =
     \<lparr>anfang = Some t, ende = Some (t + 1), fahrt_anfang = Some t, fahrt_ende = Some (t + 1),
      fahrtneu_id = n\<rparr>"

section \<open>The pipeline on a store of frames\<close>

text \<open>
  \<open>df_list_sorted\<close> holds references to DataFrame objects, so that a function which
  assigned to a frame would change it for every later step. To state what each step
  touches and in which order the steps run, the pipeline is written a second time on an
  explicit state: the store of the frames, the warnings logged so far, and the sequence
  of the steps carried out so far. Each step reads the frames from the store as they are
  at that moment. An event is one pass of the body of the overlap loop or of the gap loop
  at a boundary, the call of the merger, or one pass of the body of the merger's loop.
\<close>

datatype event = OverlapChecked nat | GapChecked nat | MergeCalled | MergeStep nat

fun merge_event :: "event \<Rightarrow> bool" where
  "merge_event MergeCalled = True"
| "merge_event (MergeStep _) = True"
| "merge_event _ = False"

record world =
  frames :: "dataframe list"
  logged :: "warning list"
  trace :: "event list"

definition record_event :: "event \<Rightarrow> world \<Rightarrow> world" where
  "record_event ev w = w\<lparr>trace := trace w @ [ev]\<rparr>"

fun for_each_exec ::
  "nat list \<Rightarrow> (nat \<Rightarrow> world \<Rightarrow> unit result \<times> world) \<Rightarrow> world \<Rightarrow> unit result \<times> world" where
  "for_each_exec [] body w = (Inr (), w)"
| "for_each_exec (i # is) body w =
     (case body i w of
        (Inl e, w') \<Rightarrow> (Inl e, w')
      | (Inr _, w') \<Rightarrow> for_each_exec is body w')"

text \<open>
  The body of the loop of \<open>verify_overlapping_bookings\<close>: it indexes and filters the
  frames, which makes new objects, and assigns to none.
\<close>

definition overlap_step :: "nat \<Rightarrow> world \<Rightarrow> unit result \<times> world" where
  "overlap_step i w = (overlap_body (frames w) i, record_event (OverlapChecked i) w)"

definition verify_overlapping_bookings_exec :: "world \<Rightarrow> unit result \<times> world" where
  "verify_overlapping_bookings_exec w =
     for_each_exec [0..<length (frames w) - 1] overlap_step w"

text \<open>
  The body of the loop of \<open>assert_time_difference_in_bookings\<close>: it reads the frames and
  writes to the log.
\<close>

definition gap_step :: "string list \<Rightarrow> int \<Rightarrow> nat \<Rightarrow> world \<Rightarrow> unit result \<times> world" where
  "gap_step csv_files_sorted threshold_hours i w =
     (case gap_body (frames w) csv_files_sorted threshold_hours i of
        (ws, r) \<Rightarrow> (r, record_event (GapChecked i) (w\<lparr>logged := logged w @ ws\<rparr>)))"

definition assert_time_difference_in_bookings_exec ::
  "string list \<Rightarrow> int \<Rightarrow> world \<Rightarrow> unit result \<times> world" where
  "assert_time_difference_in_bookings_exec csv_files_sorted threshold_hours w =
     for_each_exec [0..<length (frames w) - 1] (gap_step csv_files_sorted threshold_hours) w"

text \<open>
  The merger on the frames of the store, a list of DataFrames, so that its type test
  passes. \<open>master_df\<close> is a local variable: it starts as the first frame and is rebound
  to the new frame that \<open>pd.concat\<close> returns.
\<close>

fun merge_step :: "nat \<Rightarrow> dataframe \<times> world \<Rightarrow> dataframe \<times> world" where
  "merge_step i (master_df, w) =
     (merge_body (frames w) master_df i, record_event (MergeStep i) w)"

definition merge_nonoverlapping_dfs_exec :: "world \<Rightarrow> dataframe result \<times> world" where
  "merge_nonoverlapping_dfs_exec w =
     (let w1 = record_event MergeCalled w
      in case frames w1 of
           [] \<Rightarrow> (Inl IndexError, w1)
         | x # _ \<Rightarrow>
             (case fold merge_step [1..<length (frames w1)] (x, w1) of
                (master_df, w2) \<Rightarrow> (Inr master_df, w2)))"

text \<open>
  \<open>combine_and_verify_booking_data\<close>: the loaded frames make the store, then come the
  overlap validator, the gap validator and the merger, each on the state the one before
  left.
\<close>

definition combine_and_verify_booking_data_exec ::
  "(string \<Rightarrow> 'raw result) \<Rightarrow> ('raw \<Rightarrow> dataframe result) \<Rightarrow> string list
     \<Rightarrow> dataframe result \<times> world" where
  "combine_and_verify_booking_data_exec read_csv to_datetime csv_files =
     (case load_and_sort_fahrten_data read_csv to_datetime csv_files of
        Inl e \<Rightarrow> (Inl e, \<lparr>frames = [], logged = [], trace = []\<rparr>)
      | Inr (df_list_sorted, csv_files_sorted) \<Rightarrow>
          (case verify_overlapping_bookings_exec
                  \<lparr>frames = df_list_sorted, logged = [], trace = []\<rparr> of
             (Inl e, w1) \<Rightarrow> (Inl e, w1)
           | (Inr _, w1) \<Rightarrow>
               (case assert_time_difference_in_bookings_exec csv_files_sorted
                       threshold_hours_default w1 of
                  (Inl e, w2) \<Rightarrow> (Inl e, w2)
                | (Inr _, w2) \<Rightarrow> merge_nonoverlapping_dfs_exec w2)))"

text \<open>
  The indices at which a loop that stops at the first error runs its body: all of them
  when no pass raises, and otherwise those up to and including the first that raises.
\<close>

fun executed :: "nat list \<Rightarrow> (nat \<Rightarrow> unit result) \<Rightarrow> nat list" where
  "executed [] body = []"
| "executed (i # is) body =
     (case body i of Inl e \<Rightarrow> [i] | Inr _ \<Rightarrow> i # executed is body)"

section \<open>Columns, maxima and loops\<close>

lemma set_dropna: "set (dropna xs) = {x. Some x \<in> set xs}"
  by (induction xs rule: dropna.induct) auto

lemma dropna_append: "dropna (xs @ ys) = dropna xs @ dropna ys"
  by (induction xs rule: dropna.induct) auto

lemma series_max_None: "series_max xs = None \<longleftrightarrow> dropna xs = []"
  by (simp add: series_max_def split: list.splits)

lemma series_max_Some:
  "series_max xs = Some m \<longleftrightarrow> dropna xs \<noteq> [] \<and> m = Max (set (dropna xs))"
proof (cases "dropna xs")
  case Nil
  then show ?thesis by (simp add: series_max_def)
next
  case (Cons y ys)
  have "fold max ys y = Max (set (y # ys))" by (rule Max.set_eq_fold [symmetric])
  with Cons show ?thesis by (auto simp: series_max_def)
qed

lemma series_min_None: "series_min xs = None \<longleftrightarrow> dropna xs = []"
  by (simp add: series_min_def split: list.splits)

lemma series_min_Some:
  "series_min xs = Some m \<longleftrightarrow> dropna xs \<noteq> [] \<and> m = Min (set (dropna xs))"
proof (cases "dropna xs")
  case Nil
  then show ?thesis by (simp add: series_min_def)
next
  case (Cons y ys)
  have "fold min ys y = Min (set (y # ys))" by (rule Min.set_eq_fold [symmetric])
  with Cons show ?thesis by (auto simp: series_min_def)
qed

lemma for_each_append:
  "for_each (xs @ ys) body =
     (case for_each xs body of Inl e \<Rightarrow> Inl e | Inr _ \<Rightarrow> for_each ys body)"
  by (induction xs) (auto split: sum.splits)

lemma for_each_pass: "for_each xs body = Inr () \<longleftrightarrow> (\<forall>i\<in>set xs. body i = Inr ())"
  by (induction xs) (auto split: sum.splits)

lemma for_each_fail: "for_each xs body = Inl e \<Longrightarrow> \<exists>i\<in>set xs. body i = Inl e"
  by (induction xs) (auto split: sum.splits)

lemma for_each_cong: "(\<And>i. i \<in> set xs \<Longrightarrow> f i = g i) \<Longrightarrow> for_each xs f = for_each xs g"
  by (induction xs) (auto split: sum.splits)

lemma for_each_reach:
  assumes "k < n" "\<forall>j<k. body j = Inr ()"
  shows "for_each [0..<n] body =
           (case body k of Inl e \<Rightarrow> Inl e | Inr _ \<Rightarrow> for_each [Suc k..<n] body)"
proof -
  have "[0..<n] = [0..<k] @ k # [Suc k..<n]"
    using assms(1) by (metis less_imp_le_nat upt_add_eq_append upt_conv_Cons le0 le_add_diff_inverse)
  moreover have "for_each [0..<k] body = Inr ()"
    using assms(2) by (simp add: for_each_pass)
  ultimately show ?thesis by (simp add: for_each_append)
qed

lemma for_each_log_append:
  "for_each_log (xs @ ys) body =
     (case for_each_log xs body of
        (ws, Inl e) \<Rightarrow> (ws, Inl e)
      | (ws, Inr _) \<Rightarrow> (case for_each_log ys body of (ws', r) \<Rightarrow> (ws @ ws', r)))"
  by (induction xs) (auto split: sum.splits prod.splits)

lemma for_each_log_fail:
  "snd (for_each_log xs body) = Inl e \<Longrightarrow> \<exists>i\<in>set xs. snd (body i) = Inl e"
  by (induction xs) (auto split: sum.splits prod.splits)

lemma for_each_log_cong:
  "(\<And>i. i \<in> set xs \<Longrightarrow> f i = g i) \<Longrightarrow> for_each_log xs f = for_each_log xs g"
  by (induction xs) (auto split: sum.splits prod.splits)

section \<open>The overlap validator at one boundary\<close>

lemma series_max_set_cong:
  "set xs = set ys \<Longrightarrow> series_max xs = series_max ys"
proof -
  assume a: "set xs = set ys"
  then have s: "set (dropna xs) = set (dropna ys)" by (simp add: set_dropna)
  then have e: "dropna xs = [] \<longleftrightarrow> dropna ys = []" by (metis set_empty)
  show ?thesis
  proof (cases "series_max xs")
    case None
    then show ?thesis using e by (metis series_max_None)
  next
    case (Some m)
    then show ?thesis using e s by (metis series_max_Some)
  qed
qed

lemma series_min_set_cong:
  "set xs = set ys \<Longrightarrow> series_min xs = series_min ys"
proof -
  assume a: "set xs = set ys"
  then have s: "set (dropna xs) = set (dropna ys)" by (simp add: set_dropna)
  then have e: "dropna xs = [] \<longleftrightarrow> dropna ys = []" by (metis set_empty)
  show ?thesis
  proof (cases "series_min xs")
    case None
    then show ?thesis using e by (metis series_min_None)
  next
    case (Some m)
    then show ?thesis using e s by (metis series_min_Some)
  qed
qed

lemma col_anfang_mset_cong:
  "mset a' = mset a \<Longrightarrow> set (col_anfang a') = set (col_anfang a)"
  by (metis col_anfang_def set_map mset_eq_setD)

lemma length_filter_mset_cong:
  "mset a' = mset a \<Longrightarrow> length (filter P a') = length (filter P a)"
  by (metis mset_filter size_mset)

lemma ids_filter_mset_cong:
  "mset a' = mset a \<Longrightarrow>
     set (col_fahrtneu_id (filter P a')) = set (col_fahrtneu_id (filter P a))"
  by (metis col_fahrtneu_id_def set_map mset_filter mset_eq_setD)

lemma overlap_body_mset_cong:
  assumes "mset (dfs' ! i) = mset (dfs ! i)" "mset (dfs' ! (i + 1)) = mset (dfs ! (i + 1))"
  shows "overlap_body dfs' i = overlap_body dfs i"
proof -
  have m: "series_max (col_anfang (dfs' ! i)) = series_max (col_anfang (dfs ! i))"
    using assms(1) by (intro series_max_set_cong col_anfang_mset_cong)
  have n: "series_min (col_anfang (dfs' ! (i + 1))) = series_min (col_anfang (dfs ! (i + 1)))"
    using assms(2) by (intro series_min_set_cong col_anfang_mset_cong)
  show ?thesis
    unfolding overlap_body_def Let_def m n
    using length_filter_mset_cong [OF assms(1)] length_filter_mset_cong [OF assms(2)]
      ids_filter_mset_cong [OF assms(1)] ids_filter_mset_cong [OF assms(2)]
    by simp
qed

lemma verify_mset_cong:
  assumes "length dfs' = length dfs" "\<forall>i<length dfs. mset (dfs' ! i) = mset (dfs ! i)"
  shows "verify_overlapping_bookings dfs' = verify_overlapping_bookings dfs"
  unfolding verify_overlapping_bookings_def assms(1)
  by (rule for_each_cong, rule overlap_body_mset_cong) (use assms(2) in auto)

lemma overlap_body_take:
  "i + 1 < n \<Longrightarrow> overlap_body (take n dfs) i = overlap_body dfs i"
proof -
  assume "i + 1 < n"
  then have "take n dfs ! i = dfs ! i" "take n dfs ! (i + 1) = dfs ! (i + 1)" by simp_all
  then show ?thesis by (simp only: overlap_body_def)
qed

lemma overlap_body_error:
  "overlap_body dfs i = Inl e \<Longrightarrow>
     e = OverlapLengthMismatch i (i + 1) \<or> e = OverlapIdentityMismatch i (i + 1)"
  by (auto simp: overlap_body_def Let_def split: if_splits)

lemma verify_prefix_pass:
  assumes "k + 1 < length dfs" "verify_overlapping_bookings (take (k + 1) dfs) = Inr ()"
  shows "\<forall>j<k. overlap_body dfs j = Inr ()"
proof (intro allI impI)
  fix j assume "j < k"
  with assms have "overlap_body (take (k + 1) dfs) j = Inr ()"
    by (simp add: verify_overlapping_bookings_def for_each_pass min_def)
  with \<open>j < k\<close> show "overlap_body dfs j = Inr ()" by (simp add: overlap_body_take)
qed

lemma verify_reach:
  assumes "k + 1 < length dfs" "verify_overlapping_bookings (take (k + 1) dfs) = Inr ()"
  shows "verify_overlapping_bookings dfs =
           (case overlap_body dfs k of
              Inl e \<Rightarrow> Inl e
            | Inr _ \<Rightarrow> for_each [Suc k..<length dfs - 1] (overlap_body dfs))"
  unfolding verify_overlapping_bookings_def
  by (rule for_each_reach) (use assms verify_prefix_pass in auto)

lemma verify_later_error:
  assumes "for_each [Suc k..<n] (overlap_body dfs) = Inl e"
  shows "e \<noteq> OverlapLengthMismatch k (k + 1) \<and> e \<noteq> OverlapIdentityMismatch k (k + 1)"
proof -
  from for_each_fail [OF assms] obtain i where "Suc k \<le> i" "overlap_body dfs i = Inl e"
    by auto
  then show ?thesis using overlap_body_error by fastforce
qed

lemma verify_take_pass:
  assumes "k + 1 < length dfs" "verify_overlapping_bookings (take (k + 1) dfs) = Inr ()"
    "overlap_body dfs k = Inr ()"
  shows "verify_overlapping_bookings (take (k + 2) dfs) = Inr ()"
proof -
  have "\<forall>j<Suc k. overlap_body dfs j = Inr ()"
    using verify_prefix_pass [OF assms(1,2)] assms(3) by (auto simp: less_Suc_eq)
  then show ?thesis using assms(1)
    by (simp add: verify_overlapping_bookings_def for_each_pass overlap_body_take min_def)
qed

text \<open>
  Claim C1. At an overlapping boundary \<open>k\<close> (the maximum \<open>anfang\<close> of set \<open>k\<close> is
  at least the minimum \<open>anfang\<close> of set \<open>k+1\<close>) that the loop reaches, the validator
  raises OverlapLengthMismatch exactly when the window of set \<open>k\<close> (rows with
  \<open>anfang >= first\<close>) and the window of set \<open>k+1\<close> (rows with \<open>anfang <= last\<close>) differ in
  length; with equal lengths it raises OverlapIdentityMismatch exactly when the sets of
  \<open>fahrtneu_id\<close> of the two windows differ; with equal lengths and equal sets the
  boundary passes. The outcome does not depend on the order of the rows.
\<close>

theorem overlap_validation_outcome:
  fixes dfs :: "dataframe list" and k :: nat
  defines "lastA \<equiv> series_max (col_anfang (dfs ! k))"
    and "firstB \<equiv> series_min (col_anfang (dfs ! (k + 1)))"
  defines "overlapA \<equiv> filter (\<lambda>r. ts_ge (anfang r) firstB) (dfs ! k)"
    and "overlapB \<equiv> filter (\<lambda>r. ts_le (anfang r) lastA) (dfs ! (k + 1))"
  assumes bound: "k + 1 < length dfs"
    and reach: "verify_overlapping_bookings (take (k + 1) dfs) = Inr ()"
    and overlapping: "ts_ge lastA firstB"
  shows "(verify_overlapping_bookings dfs = Inl (OverlapLengthMismatch k (k + 1))
            \<longleftrightarrow> length overlapA \<noteq> length overlapB)
       \<and> (length overlapA = length overlapB \<longrightarrow>
            (verify_overlapping_bookings dfs = Inl (OverlapIdentityMismatch k (k + 1))
               \<longleftrightarrow> set (col_fahrtneu_id overlapA) \<noteq> set (col_fahrtneu_id overlapB)))
       \<and> (length overlapA = length overlapB
            \<and> set (col_fahrtneu_id overlapA) = set (col_fahrtneu_id overlapB) \<longrightarrow>
            verify_overlapping_bookings (take (k + 2) dfs) = Inr ())
       \<and> (\<forall>dfs'. length dfs' = length dfs \<and> (\<forall>i<length dfs. mset (dfs' ! i) = mset (dfs ! i))
            \<longrightarrow> verify_overlapping_bookings dfs' = verify_overlapping_bookings dfs)"
proof -
  have body: "overlap_body dfs k =
      (if length overlapA \<noteq> length overlapB then Inl (OverlapLengthMismatch k (k + 1))
       else if set (col_fahrtneu_id overlapA) \<noteq> set (col_fahrtneu_id overlapB)
       then Inl (OverlapIdentityMismatch k (k + 1)) else Inr ())"
    using overlapping
    by (simp add: overlap_body_def Let_def lastA_def firstB_def overlapA_def overlapB_def)
  note r = verify_reach [OF bound reach]
  have later: "\<And>e. for_each [Suc k..<length dfs - 1] (overlap_body dfs) = Inl e \<Longrightarrow>
      e \<noteq> OverlapLengthMismatch k (k + 1) \<and> e \<noteq> OverlapIdentityMismatch k (k + 1)"
    by (rule verify_later_error)
  have c1: "verify_overlapping_bookings dfs = Inl (OverlapLengthMismatch k (k + 1))
            \<longleftrightarrow> length overlapA \<noteq> length overlapB"
    using later by (auto simp: r body split: if_splits)
  have c2: "length overlapA = length overlapB \<longrightarrow>
            (verify_overlapping_bookings dfs = Inl (OverlapIdentityMismatch k (k + 1))
               \<longleftrightarrow> set (col_fahrtneu_id overlapA) \<noteq> set (col_fahrtneu_id overlapB))"
    using later by (auto simp: r body split: if_splits)
  have c3: "length overlapA = length overlapB
            \<and> set (col_fahrtneu_id overlapA) = set (col_fahrtneu_id overlapB) \<longrightarrow>
            verify_overlapping_bookings (take (k + 2) dfs) = Inr ()"
    using verify_take_pass [OF bound reach] body by simp
  have c4: "\<forall>dfs'. length dfs' = length dfs \<and> (\<forall>i<length dfs. mset (dfs' ! i) = mset (dfs ! i))
            \<longrightarrow> verify_overlapping_bookings dfs' = verify_overlapping_bookings dfs"
    using verify_mset_cong by blast
  from c1 c2 c3 c4 show ?thesis by blast
qed

theorem overlap_validation_outcome_witness:
  "0 + 1 < length [[booking 1 10, booking 2 11, booking 3 12], [booking 3 12, booking 2 11, booking 5 13]]
   \<and> verify_overlapping_bookings
        (take (0 + 1) [[booking 1 10, booking 2 11, booking 3 12], [booking 3 12, booking 2 11, booking 5 13]]) = Inr ()
   \<and> ts_ge (series_max (col_anfang [booking 1 10, booking 2 11, booking 3 12]))
            (series_min (col_anfang [booking 3 12, booking 2 11, booking 5 13]))
   \<and> verify_overlapping_bookings
        [[booking 1 10, booking 2 11, booking 3 12], [booking 3 12, booking 2 11, booking 5 13]]
        \<noteq> Inl (OverlapLengthMismatch 0 1)
   \<and> verify_overlapping_bookings
        [[booking 1 10, booking 2 11, booking 3 12], [booking 3 12, booking 2 11, booking 5 13]]
        \<noteq> Inl (OverlapIdentityMismatch 0 1)"
proof -
  let ?dfs = "[[booking 1 10, booking 2 11, booking 3 12], [booking 3 12, booking 2 11, booking 5 13]]"
  have h1: "0 + 1 < length ?dfs" by simp
  have h2: "verify_overlapping_bookings (take (0 + 1) ?dfs) = Inr ()"
    by (simp add: verify_overlapping_bookings_def)
  have h3: "ts_ge (series_max (col_anfang (?dfs ! 0))) (series_min (col_anfang (?dfs ! (0 + 1))))"
    by (simp add: series_max_def series_min_def col_anfang_def booking_def)
  have len: "length (filter (\<lambda>r. ts_ge (anfang r) (series_min (col_anfang (?dfs ! (0 + 1))))) (?dfs ! 0))
      = length (filter (\<lambda>r. ts_le (anfang r) (series_max (col_anfang (?dfs ! 0)))) (?dfs ! (0 + 1)))"
    by (simp add: series_max_def series_min_def col_anfang_def booking_def)
  have ids: "set (col_fahrtneu_id (filter (\<lambda>r. ts_ge (anfang r) (series_min (col_anfang (?dfs ! (0 + 1))))) (?dfs ! 0)))
      = set (col_fahrtneu_id (filter (\<lambda>r. ts_le (anfang r) (series_max (col_anfang (?dfs ! 0)))) (?dfs ! (0 + 1))))"
    by (simp add: series_max_def series_min_def col_anfang_def col_fahrtneu_id_def booking_def insert_commute)
  from overlap_validation_outcome [OF h1 h2 h3] len ids h1 h2 h3
  show ?thesis by simp
qed

section \<open>The merger on a single record set\<close>

text \<open>
  Claim C9. For every single-element input list, the merger returns that one record
  set's rows unchanged: no row added, removed, reordered or modified.
\<close>

theorem merge_single_unchanged:
  "merge_nonoverlapping_dfs (PyList [DataFrame df]) = Inr df"
  by (simp add: merge_nonoverlapping_dfs_def)

section \<open>Rejected inputs of the merger\<close>

text \<open>
  Claim C7, as amended. The merger produces a merged set exactly for a non-empty list all
  of whose elements are DataFrames. It rejects with InvalidInput (\<open>ValueError\<close>) exactly
  when its argument is not a list or is a list with an element that is not a DataFrame.
  The empty list passes that test (\<open>all\<close> of nothing holds) and fails at
  \<open>df_list_sorted[0]\<close> with \<open>IndexError\<close>, not with InvalidInput.
\<close>

theorem merge_rejects:
  "(merge_nonoverlapping_dfs v = Inl InvalidInput
      \<longleftrightarrow> (\<forall>xs. v \<noteq> PyList xs) \<or> (\<exists>xs. v = PyList xs \<and> \<not> list_all is_DataFrame xs))
   \<and> (merge_nonoverlapping_dfs v = Inl IndexError \<longleftrightarrow> v = PyList [])
   \<and> ((\<exists>m. merge_nonoverlapping_dfs v = Inr m)
      \<longleftrightarrow> (\<exists>x xs. v = PyList (x # xs) \<and> list_all is_DataFrame (x # xs)))"
  by (cases v) (auto simp: merge_nonoverlapping_dfs_def split: list.splits)

text \<open>The empty list is not rejected with InvalidInput.\<close>

theorem merge_empty_list_counterexample:
  "merge_nonoverlapping_dfs (PyList []) = Inl IndexError
   \<and> merge_nonoverlapping_dfs (PyList []) \<noteq> Inl InvalidInput"
  by (simp add: merge_nonoverlapping_dfs_def)

section \<open>The merger's loop and the running merged set\<close>

lemma merge_body_spec: "merge_body dfs m i = spec_merge_step m (dfs ! i)"
  by (simp add: merge_body_def spec_merge_step_def)

lemma merge_loop_spec:
  "j \<le> length dfs \<Longrightarrow>
     foldl (merge_body dfs) m [i..<j] = foldl spec_merge_step m (take (j - i) (drop i dfs))"
proof (induction j)
  case 0
  then show ?case by simp
next
  case (Suc j)
  show ?case
  proof (cases "i \<le> j")
    case True
    have "take (Suc j - i) (drop i dfs) = take (j - i) (drop i dfs) @ [dfs ! j]"
      using True Suc.prems by (simp add: Suc_diff_le take_Suc_conv_app_nth)
    then show ?thesis using True Suc by (simp add: merge_body_spec)
  next
    case False
    then show ?thesis by simp
  qed
qed

lemma frames_roundtrip: "map (frame_of \<circ> DataFrame) xs = xs"
  by (induction xs) simp_all

lemma frames_all_DataFrame: "list_all is_DataFrame (map DataFrame xs)"
  by (induction xs) simp_all

lemma merge_frames:
  "merge_nonoverlapping_dfs (PyList (map DataFrame (A # rest))) = Inr (spec_merge A rest)"
proof -
  have "foldl (merge_body (A # rest)) A [1..<length (A # rest)]
          = foldl spec_merge_step A (take (length (A # rest) - 1) (drop 1 (A # rest)))"
    by (rule merge_loop_spec) simp
  then have c: "foldl (merge_body (A # rest)) A [Suc 0..<Suc (length rest)] = spec_merge A rest"
    by (simp add: spec_merge_def)
  show ?thesis
    using frames_all_DataFrame [of rest]
    by (simp add: merge_nonoverlapping_dfs_def frames_roundtrip c del: upt_Suc)
qed

lemma master_before_spec:
  "i \<le> length (A # rest) \<Longrightarrow>
     master_before (A # rest) i = spec_merge A (take (i - 1) rest)"
  unfolding master_before_def spec_merge_def
  by (simp add: merge_loop_spec del: upt_Suc)

lemma master_before_Suc:
  "1 \<le> i \<Longrightarrow> master_before dfs (Suc i) = master_before dfs i @ new_data dfs i"
  by (simp add: master_before_def new_data_def running_max_def merge_body_def)

lemma master_before_concat:
  "1 \<le> n \<Longrightarrow> master_before dfs n = dfs ! 0 @ concat (map (new_data dfs) [1..<n])"
proof (induction n)
  case 0
  then show ?case by simp
next
  case (Suc n)
  show ?case
  proof (cases "n = 0")
    case True
    then show ?thesis by (simp add: master_before_def)
  next
    case False
    then have "1 \<le> n" by simp
    with Suc.IH show ?thesis by (simp add: master_before_Suc)
  qed
qed

lemma series_max_member:
  assumes "x \<in> set m" "anfang x = Some s"
  shows "\<exists>b. series_max (col_anfang m) = Some b \<and> s \<le> b"
proof -
  have s: "s \<in> set (dropna (col_anfang m))"
    using assms by (force simp: set_dropna col_anfang_def)
  then have "dropna (col_anfang m) \<noteq> []" by auto
  moreover have "s \<le> Max (set (dropna (col_anfang m)))" using s by simp
  ultimately show ?thesis by (simp add: series_max_Some)
qed

lemma series_max_attained:
  assumes "series_max (col_anfang m) = Some s"
  shows "\<exists>x\<in>set m. anfang x = Some s"
proof -
  from assms have ne: "dropna (col_anfang m) \<noteq> []" and "s = Max (set (dropna (col_anfang m)))"
    by (simp_all add: series_max_Some)
  then have "s \<in> set (dropna (col_anfang m))" using Max_in [of "set (dropna (col_anfang m))"] by simp
  then show ?thesis by (auto simp: set_dropna col_anfang_def)
qed

lemma row_not_after_max: "x \<in> set m \<Longrightarrow> \<not> ts_gt (anfang x) (series_max (col_anfang m))"
proof (cases "anfang x")
  case None
  then show ?thesis by simp
next
  case (Some s)
  assume "x \<in> set m"
  from series_max_member [OF this Some] Some show ?thesis by auto
qed

lemma series_max_append_ge:
  assumes "series_max (col_anfang m) = Some a"
  shows "\<exists>b. series_max (col_anfang (m @ n)) = Some b \<and> a \<le> b"
proof -
  from series_max_attained [OF assms] obtain x where "x \<in> set m" "anfang x = Some a" by blast
  then have "x \<in> set (m @ n)" by simp
  from series_max_member [OF this \<open>anfang x = Some a\<close>] show ?thesis .
qed

lemma step_NaT: "series_max (col_anfang m) = None \<Longrightarrow> spec_merge_step m S = m"
  by (simp add: spec_merge_step_def)

lemma step_covers_mono:
  assumes "\<not> ts_gt t (series_max (col_anfang m))"
  shows "\<not> ts_gt t (series_max (col_anfang (spec_merge_step m S)))"
proof (cases "series_max (col_anfang m)")
  case None
  then show ?thesis by (simp add: step_NaT)
next
  case (Some a)
  from series_max_append_ge [OF Some] obtain b
    where "series_max (col_anfang (spec_merge_step m S)) = Some b" "a \<le> b"
    unfolding spec_merge_step_def by blast
  with assms Some show ?thesis by (cases t) auto
qed

lemma step_covers_last:
  assumes "ts_le t (series_max (col_anfang S))"
  shows "\<not> ts_gt t (series_max (col_anfang (spec_merge_step m S)))"
proof (cases "series_max (col_anfang m)")
  case None
  then show ?thesis by (simp add: step_NaT)
next
  case (Some a)
  from assms obtain t' s where t: "t = Some t'" and s: "series_max (col_anfang S) = Some s"
    and le: "t' \<le> s"
    by (cases t; cases "series_max (col_anfang S)") auto
  from series_max_attained [OF s] obtain x where x: "x \<in> set S" "anfang x = Some s" by blast
  show ?thesis
  proof (cases "s > a")
    case True
    then have "x \<in> set (spec_merge_step m S)"
      using x Some by (simp add: spec_merge_step_def)
    from series_max_member [OF this x(2)] t le show ?thesis by auto
  next
    case False
    from series_max_append_ge [OF Some] obtain b
      where "series_max (col_anfang (spec_merge_step m S)) = Some b" "a \<le> b"
      unfolding spec_merge_step_def by blast
    with False t le show ?thesis by auto
  qed
qed

lemma count_filter: "count_list (filter P xs) r = (if P r then count_list xs r else 0)"
  by (induction xs) auto

lemma step_count:
  "\<not> ts_gt (anfang r) (series_max (col_anfang m)) \<Longrightarrow>
     count_list (spec_merge_step m S) r = count_list m r"
  by (simp add: spec_merge_step_def count_filter)

lemma fold_count:
  "\<not> ts_gt (anfang r) (series_max (col_anfang m)) \<Longrightarrow>
     count_list (foldl spec_merge_step m rest) r = count_list m r"
proof (induction rest arbitrary: m)
  case Nil
  then show ?case by simp
next
  case (Cons S rest)
  from Cons.prems have "\<not> ts_gt (anfang r) (series_max (col_anfang (spec_merge_step m S)))"
    by (rule step_covers_mono)
  from Cons.IH [OF this] Cons.prems show ?case by (simp add: step_count)
qed

lemma master_before_step:
  "1 \<le> i \<Longrightarrow> master_before dfs (Suc i) = spec_merge_step (master_before dfs i) (dfs ! i)"
  by (simp add: master_before_def merge_body_spec)

lemma master_before_one: "master_before dfs (Suc 0) = dfs ! 0"
  by (simp add: master_before_def)

lemma master_covers_last:
  assumes "ts_le t (series_max (col_anfang (dfs ! k)))"
  shows "\<not> ts_gt t (running_max dfs (Suc k))"
proof (cases "k = 0")
  case True
  with assms show ?thesis
    by (cases t; cases "series_max (col_anfang (dfs ! 0))")
       (auto simp: running_max_def master_before_one)
next
  case False
  then have "1 \<le> k" by simp
  then show ?thesis
    unfolding running_max_def using step_covers_last [OF assms] by (simp add: master_before_step)
qed

lemma merge_split:
  assumes "k \<le> length rest"
  shows "spec_merge A rest
           = foldl spec_merge_step (master_before (A # rest) (Suc k)) (drop k rest)"
proof -
  have "master_before (A # rest) (Suc k) = spec_merge A (take k rest)"
    using assms by (simp add: master_before_spec del: upt_Suc)
  then show ?thesis
    unfolding spec_merge_def by (metis append_take_drop_id foldl_append)
qed

lemma boundary_count:
  assumes k: "k < length rest"
    and le: "ts_le (anfang r) (series_max (col_anfang ((A # rest) ! k)))"
    and kept: "k = 0 \<or> ts_gt (anfang r) (running_max (A # rest) k)"
  shows "count_list (spec_merge A rest) r = count_list ((A # rest) ! k) r"
proof -
  let ?dfs = "A # rest"
  have "\<not> ts_gt (anfang r) (series_max (col_anfang (master_before ?dfs (Suc k))))"
    using master_covers_last [OF le] by (simp add: running_max_def)
  then have c: "count_list (spec_merge A rest) r = count_list (master_before ?dfs (Suc k)) r"
    using k by (simp add: merge_split [of k] fold_count)
  show ?thesis
  proof (cases "k = 0")
    case True
    then show ?thesis using c by (simp add: master_before_one)
  next
    case False
    then have k1: "1 \<le> k" and gt: "ts_gt (anfang r) (running_max ?dfs k)" using kept by auto
    have "r \<notin> set (master_before ?dfs k)"
      using gt row_not_after_max [of r "master_before ?dfs k"] by (auto simp: running_max_def)
    then have "count_list (master_before ?dfs k) r = 0" by (simp add: count_list_0_iff)
    moreover have "count_list (new_data ?dfs k) r = count_list (?dfs ! k) r"
      using gt by (simp add: new_data_def count_filter)
    ultimately show ?thesis using c k1 by (simp add: master_before_Suc)
  qed
qed

text \<open>
  Claim C2, as amended. For every non-empty list of record sets the merger returns the
  running merged set of the specification: it starts from the first set and, for each
  further set in list order, appends exactly the rows whose \<open>anfang\<close> is strictly greater
  than the maximum \<open>anfang\<close> of the merged set so far. Consequently, when adjacent sets
  \<open>k\<close> and \<open>k+1\<close> share a boundary record (\<open>last = first\<close>), the copy in the later set
  is never appended; and when the copy in the earlier set was itself kept (the earlier set
  is the first of the list, or the record is later than the running maximum when set \<open>k\<close>
  is processed), the record occurs in the output exactly as often as in the earlier set:
  once, if it occurs once there.
\<close>

theorem merge_running_maximum:
  fixes A :: dataframe and rest :: "dataframe list" and k :: nat and r :: row and t :: int
  defines "dfs \<equiv> A # rest"
  shows "merge_nonoverlapping_dfs (PyList (map DataFrame dfs)) = Inr (spec_merge A rest)
       \<and> (k + 1 < length dfs
            \<and> series_max (col_anfang (dfs ! k)) = Some t
            \<and> series_min (col_anfang (dfs ! (k + 1))) = Some t
            \<and> anfang r = Some t \<and> r \<in> set (dfs ! k) \<and> r \<in> set (dfs ! (k + 1)) \<longrightarrow>
          r \<notin> set (new_data dfs (k + 1))
          \<and> (k = 0 \<or> ts_gt (anfang r) (running_max dfs k) \<longrightarrow>
               count_list (spec_merge A rest) r = count_list (dfs ! k) r))"
proof -
  have a: "merge_nonoverlapping_dfs (PyList (map DataFrame dfs)) = Inr (spec_merge A rest)"
    unfolding dfs_def by (rule merge_frames)
  have b: "r \<notin> set (new_data dfs (k + 1))"
    if "series_max (col_anfang (dfs ! k)) = Some t" "anfang r = Some t"
  proof -
    from that have "ts_le (anfang r) (series_max (col_anfang (dfs ! k)))" by simp
    from master_covers_last [OF this] show ?thesis by (simp add: new_data_def)
  qed
  have c: "count_list (spec_merge A rest) r = count_list (dfs ! k) r"
    if "k + 1 < length dfs" "series_max (col_anfang (dfs ! k)) = Some t" "anfang r = Some t"
      "k = 0 \<or> ts_gt (anfang r) (running_max dfs k)"
  proof -
    from that have "ts_le (anfang r) (series_max (col_anfang ((A # rest) ! k)))"
      by (simp add: dfs_def)
    moreover have "k < length rest" using that(1) by (simp add: dfs_def)
    ultimately show ?thesis using that(4) unfolding dfs_def by (intro boundary_count)
  qed
  from a b c show ?thesis by blast
qed

theorem merge_running_maximum_witness:
  "merge_nonoverlapping_dfs
     (PyList (map DataFrame [[booking 1 10, booking 4 11], [booking 4 11, booking 9 12]]))
     = Inr [booking 1 10, booking 4 11, booking 9 12]
   \<and> 0 + 1 < length [[booking 1 10, booking 4 11], [booking 4 11, booking 9 12]]
   \<and> series_max (col_anfang [booking 1 10, booking 4 11]) = Some 4
   \<and> series_min (col_anfang [booking 4 11, booking 9 12]) = Some 4
   \<and> anfang (booking 4 11) = Some 4
   \<and> booking 4 11 \<notin> set (new_data [[booking 1 10, booking 4 11], [booking 4 11, booking 9 12]] 1)
   \<and> count_list (spec_merge [booking 1 10, booking 4 11] [[booking 4 11, booking 9 12]])
        (booking 4 11) = 1"
proof -
  let ?A = "[booking 1 10, booking 4 11]" and ?B = "[booking 4 11, booking 9 12]"
  have m: "spec_merge ?A [?B] = [booking 1 10, booking 4 11, booking 9 12]"
    by (simp add: spec_merge_def spec_merge_step_def series_max_def col_anfang_def booking_def)
  have h1: "0 + 1 < length [?A, ?B]" by simp
  have h2: "series_max (col_anfang ([?A, ?B] ! 0)) = Some 4"
    and h3: "series_min (col_anfang ([?A, ?B] ! (0 + 1))) = Some 4"
    and h4: "anfang (booking 4 11) = Some 4"
    and h5: "booking 4 11 \<in> set ([?A, ?B] ! 0)" and h6: "booking 4 11 \<in> set ([?A, ?B] ! (0 + 1))"
    by (simp_all add: series_max_def series_min_def col_anfang_def booking_def)
  have c: "count_list ?A (booking 4 11) = 1" by (simp add: booking_def)
  from merge_running_maximum [of ?A "[?B]" 0 4 "booking 4 11"] h1 h2 h3 h4 h5 h6 m c
  show ?thesis by simp
qed

text \<open>
  Without that proviso the consequence fails: the second and third set below share the
  boundary record at time 5, but the first set already reaches time 10, so neither copy
  is appended and the record is missing from the output.
\<close>

theorem merge_boundary_record_counterexample:
  "series_max (col_anfang [booking 5 2]) = Some 5
   \<and> series_min (col_anfang [booking 5 2]) = Some 5
   \<and> merge_nonoverlapping_dfs
        (PyList [DataFrame [booking 10 1], DataFrame [booking 5 2], DataFrame [booking 5 2]])
       = Inr [booking 10 1]
   \<and> count_list [booking 10 1] (booking 5 2) = 0"
  by (simp add: merge_nonoverlapping_dfs_def merge_body_def Let_def series_max_def
      series_min_def col_anfang_def booking_def)

section \<open>Selection by timestamp only\<close>

lemma col_anfang_relabel: "col_anfang (relabel f df) = col_anfang df"
  by (simp add: col_anfang_def relabel_def comp_def)

lemma step_relabel:
  "spec_merge_step (relabel f m) (relabel f S) = relabel f (spec_merge_step m S)"
  by (simp add: spec_merge_step_def col_anfang_relabel)
     (simp add: relabel_def filter_map comp_def)

lemma fold_relabel:
  "foldl spec_merge_step (relabel f m) (map (relabel f) rest)
     = relabel f (foldl spec_merge_step m rest)"
  by (induction rest arbitrary: m) (simp_all add: step_relabel)

lemma merge_concat:
  "spec_merge A rest = A @ concat (map (new_data (A # rest)) [1..<length (A # rest)])"
proof -
  have "spec_merge A rest = master_before (A # rest) (length (A # rest))"
    by (simp add: master_before_spec del: upt_Suc)
  also have "\<dots> = (A # rest) ! 0 @ concat (map (new_data (A # rest)) [1..<length (A # rest)])"
    by (rule master_before_concat) simp
  finally show ?thesis by simp
qed

text \<open>
  Claim C10. The output is the first record set, unfiltered, followed by the rows
  \<open>new_data\<close> appended at each later step. A row of a later set is among the rows
  appended at its step exactly when its \<open>anfang\<close> is strictly greater than the running
  maximum of that step: a row at or before the running maximum is not appended, a later
  row is appended and so is in the output. The booking identifier plays no part: rewriting
  the identifiers of all rows in any way rewrites the output rows in the same way and
  selects the same rows.
\<close>

theorem merge_selects_by_timestamp:
  fixes A :: dataframe and rest :: "dataframe list" and f :: "row \<Rightarrow> int"
  defines "dfs \<equiv> A # rest"
  defines "out \<equiv> A @ concat (map (new_data dfs) [1..<length dfs])"
  shows "merge_nonoverlapping_dfs (PyList (map DataFrame dfs)) = Inr out
       \<and> (\<forall>i r. 1 \<le> i \<and> i < length dfs \<and> r \<in> set (dfs ! i) \<longrightarrow>
             (r \<in> set (new_data dfs i) \<longleftrightarrow> ts_gt (anfang r) (running_max dfs i)))
       \<and> (\<forall>i r. 1 \<le> i \<and> i < length dfs \<and> r \<in> set (dfs ! i)
                 \<and> ts_le (anfang r) (running_max dfs i) \<longrightarrow> r \<notin> set (new_data dfs i))
       \<and> (\<forall>i r. 1 \<le> i \<and> i < length dfs \<and> r \<in> set (dfs ! i)
                 \<and> ts_gt (anfang r) (running_max dfs i) \<longrightarrow> r \<in> set out)
       \<and> merge_nonoverlapping_dfs (PyList (map DataFrame (map (relabel f) dfs)))
           = Inr (relabel f out)"
proof -
  have o: "out = spec_merge A rest"
    unfolding out_def dfs_def by (rule merge_concat [symmetric])
  have a: "merge_nonoverlapping_dfs (PyList (map DataFrame dfs)) = Inr out"
    unfolding o dfs_def by (rule merge_frames)
  have b: "\<forall>i r. 1 \<le> i \<and> i < length dfs \<and> r \<in> set (dfs ! i) \<longrightarrow>
             (r \<in> set (new_data dfs i) \<longleftrightarrow> ts_gt (anfang r) (running_max dfs i))"
    by (simp add: new_data_def)
  have c: "\<forall>i r. 1 \<le> i \<and> i < length dfs \<and> r \<in> set (dfs ! i)
                 \<and> ts_le (anfang r) (running_max dfs i) \<longrightarrow> r \<notin> set (new_data dfs i)"
  proof (intro allI impI)
    fix i r
    assume "1 \<le> i \<and> i < length dfs \<and> r \<in> set (dfs ! i) \<and> ts_le (anfang r) (running_max dfs i)"
    then have "\<not> ts_gt (anfang r) (running_max dfs i)"
      by (cases "anfang r"; cases "running_max dfs i") auto
    then show "r \<notin> set (new_data dfs i)" by (simp add: new_data_def)
  qed
  have d: "\<forall>i r. 1 \<le> i \<and> i < length dfs \<and> r \<in> set (dfs ! i)
                 \<and> ts_gt (anfang r) (running_max dfs i) \<longrightarrow> r \<in> set out"
  proof (intro allI impI)
    fix i r
    assume h: "1 \<le> i \<and> i < length dfs \<and> r \<in> set (dfs ! i) \<and> ts_gt (anfang r) (running_max dfs i)"
    then have "r \<in> set (new_data dfs i)" by (simp add: new_data_def)
    moreover have "i \<in> set [1..<length dfs]" using h by simp
    ultimately show "r \<in> set out" unfolding out_def by (auto simp del: upt_Suc)
  qed
  have "merge_nonoverlapping_dfs (PyList (map DataFrame (relabel f A # map (relabel f) rest)))
          = Inr (spec_merge (relabel f A) (map (relabel f) rest))"
    by (rule merge_frames)
  then have e: "merge_nonoverlapping_dfs (PyList (map DataFrame (map (relabel f) dfs)))
           = Inr (relabel f out)"
    unfolding o by (simp add: dfs_def spec_merge_def fold_relabel)
  from a b c d e show ?thesis by blast
qed

theorem merge_selects_by_timestamp_witness:
  "merge_nonoverlapping_dfs
     (PyList (map DataFrame [[booking 1 10, booking 4 11], [booking 3 12, booking 9 10]]))
     = Inr [booking 1 10, booking 4 11, booking 9 10]
   \<and> running_max [[booking 1 10, booking 4 11], [booking 3 12, booking 9 10]] 1 = Some 4
   \<and> booking 3 12 \<notin> set (new_data [[booking 1 10, booking 4 11], [booking 3 12, booking 9 10]] 1)
   \<and> booking 9 10 \<in> set (new_data [[booking 1 10, booking 4 11], [booking 3 12, booking 9 10]] 1)"
proof -
  let ?A = "[booking 1 10, booking 4 11]" and ?B = "[booking 3 12, booking 9 10]"
  have rm: "running_max [?A, ?B] 1 = Some 4"
    by (simp add: running_max_def master_before_def series_max_def col_anfang_def booking_def)
  have rm': "running_max [?A, ?B] (Suc 0) = Some 4" using rm by simp
  have nd: "new_data [?A, ?B] (Suc 0) = [booking 9 10]"
    by (simp add: new_data_def rm') (simp add: booking_def)
  have o: "?A @ concat (map (new_data [?A, ?B]) [1..<length [?A, ?B]])
             = [booking 1 10, booking 4 11, booking 9 10]"
    by (simp add: nd)
  have h: "(1::nat) \<le> 1 \<and> 1 < length [?A, ?B] \<and> booking 3 12 \<in> set ([?A, ?B] ! 1)
           \<and> ts_le (anfang (booking 3 12)) (running_max [?A, ?B] 1)"
    "(1::nat) \<le> 1 \<and> 1 < length [?A, ?B] \<and> booking 9 10 \<in> set ([?A, ?B] ! 1)
           \<and> ts_gt (anfang (booking 9 10)) (running_max [?A, ?B] 1)"
    by (simp_all add: rm') (simp_all add: booking_def)
  from merge_selects_by_timestamp [of ?A "[?B]"] have
    t1: "merge_nonoverlapping_dfs (PyList (map DataFrame [?A, ?B]))
          = Inr (?A @ concat (map (new_data [?A, ?B]) [1..<length [?A, ?B]]))"
    and t2: "\<forall>i r. 1 \<le> i \<and> i < length [?A, ?B] \<and> r \<in> set ([?A, ?B] ! i)
                 \<and> ts_le (anfang r) (running_max [?A, ?B] i) \<longrightarrow> r \<notin> set (new_data [?A, ?B] i)"
    and t3: "\<forall>i r. 1 \<le> i \<and> i < length [?A, ?B] \<and> r \<in> set ([?A, ?B] ! i) \<longrightarrow>
             (r \<in> set (new_data [?A, ?B] i) \<longleftrightarrow> ts_gt (anfang r) (running_max [?A, ?B] i))"
    by blast+
  from t2 h(1) have a: "booking 3 12 \<notin> set (new_data [?A, ?B] 1)" by blast
  from t3 h(2) have b: "booking 9 10 \<in> set (new_data [?A, ?B] 1)" by blast
  from t1 o rm a b show ?thesis by simp
qed

section \<open>The sequencer's file names\<close>

text \<open>
  Claim C3 says that the sequencer returns the file names sorted, paired in order with
  the frames. The frames are loaded in sorted order, but the function returns its argument
  \<open>csv_files\<close>, not \<open>csv_files_sorted\<close>: on the names \<open>b.csv\<close>, \<open>a.csv\<close> the frames come
  back in the order \<open>a.csv\<close>, \<open>b.csv\<close> and the names in the order given.
\<close>

theorem sequencer_returns_unsorted_names:
  "load_and_sort_fahrten_data
     (\<lambda>f. Inr f)
     (\<lambda>f. Inr (if f = ''a.csv'' then [booking 1 10] else [booking 2 20]))
     [''b.csv'', ''a.csv'']
   = Inr ([[booking 1 10], [booking 2 20]], [''b.csv'', ''a.csv''])
   \<and> sort [''b.csv'', ''a.csv''] = [''a.csv'', ''b.csv'']"
  by (simp add: load_and_sort_fahrten_data_def less_eq_char_def less_char_def)

section \<open>The gap validator at one boundary\<close>

lemma for_each_log_reach:
  assumes "k < n" "for_each_log [0..<k] body = (ws0, Inr ())"
  shows "for_each_log [0..<n] body =
           (case body k of
              (ws, Inl e) \<Rightarrow> (ws0 @ ws, Inl e)
            | (ws, Inr _) \<Rightarrow>
                (case for_each_log [Suc k..<n] body of (ws', r) \<Rightarrow> (ws0 @ ws @ ws', r)))"
proof -
  have "[0..<n] = [0..<k] @ k # [Suc k..<n]"
    using assms(1) by (metis less_imp_le_nat upt_add_eq_append upt_conv_Cons le0 le_add_diff_inverse)
  then show ?thesis using assms(2)
    by (simp add: for_each_log_append split: sum.splits prod.splits)
qed

lemma gap_body_take:
  "i + 1 < n \<Longrightarrow> gap_body (take n dfs) names thr i = gap_body dfs names thr i"
proof -
  assume "i + 1 < n"
  then have "take n dfs ! i = dfs ! i" "take n dfs ! (i + 1) = dfs ! (i + 1)" by simp_all
  then show ?thesis by (simp only: gap_body_def)
qed

lemma gap_loop_take:
  assumes "m \<le> n" "Suc n \<le> length dfs"
  shows "for_each_log [0..<m] (gap_body (take (Suc n) dfs) names thr)
           = for_each_log [0..<m] (gap_body dfs names thr)"
  by (rule for_each_log_cong) (use assms in \<open>simp add: gap_body_take\<close>)

lemma gap_prefix:
  assumes "k + 1 < length dfs"
  shows "assert_time_difference_in_bookings (take (k + 1) dfs) names thr
           = for_each_log [0..<k] (gap_body dfs names thr)"
proof -
  have "length (take (k + 1) dfs) - 1 = k" using assms by simp
  then have "assert_time_difference_in_bookings (take (k + 1) dfs) names thr
           = for_each_log [0..<k] (gap_body (take (k + 1) dfs) names thr)"
    by (simp only: assert_time_difference_in_bookings_def)
  also have "\<dots> = for_each_log [0..<k] (gap_body dfs names thr)"
    by (rule for_each_log_cong) (simp add: gap_body_take)
  finally show ?thesis .
qed

text \<open>The gapped branch of the body, once both dates are timestamps.\<close>

lemma gap_body_gapped:
  assumes "series_max (col_anfang (dfs ! k)) = Some l"
    "series_min (col_anfang (dfs ! (k + 1))) = Some f" "l < f" "k + 1 < length names"
  shows "gap_body dfs names thr k =
      (if timedelta_max < f - l then ([], Inl OutOfBoundsDatetime)
       else if \<not> (- 999999999 \<le> thr div 24 \<and> thr div 24 \<le> 999999999)
       then ([], Inl OverflowError)
       else if thr * hour_ns < f - l
       then ([], Inl (GapTooLarge thr (names ! k) (names ! (k + 1))))
       else ([\<lparr>file_current = names ! k, file_next = names ! (k + 1),
                last_date = Some l, first_date = Some f\<rparr>], Inr ()))"
proof -
  have "0 < timedelta_max" by (simp add: timedelta_max_def)
  then have "\<not> f - l < - timedelta_max" using assms(3) by simp
  then show ?thesis
    using assms by (auto simp: gap_body_def Let_def timedelta_hours_def)
qed

text \<open>
  Claim C4, as amended. At a gapped boundary \<open>k\<close> (\<open>last < first\<close>) that the loop reaches,
  with \<open>gap = first - last\<close>, and provided the gap fits a pandas \<open>Timedelta\<close> and
  \<open>threshold_hours\<close> is an amount that \<open>datetime.timedelta\<close> can hold: the validator raises
  GapTooLarge, naming \<open>threshold_hours\<close> and the two file names, exactly when the gap is
  strictly greater than the threshold; otherwise it logs one warning with the two file
  names, \<open>last\<close> and \<open>first\<close>, and goes on with the boundaries after \<open>k\<close>. With the default
  threshold of 6 hours a gap of 7 hours raises, and gaps of 5 hours and of exactly 6 hours
  pass. A gap that does not fit a \<open>Timedelta\<close> raises \<open>OutOfBoundsDatetime\<close> at the
  subtraction, and a threshold outside the range of \<open>datetime.timedelta\<close> raises
  \<open>OverflowError\<close>, whatever the gap.
\<close>

theorem gap_validation_outcome:
  fixes dfs :: "dataframe list" and names :: "string list" and thr :: int and k :: nat
    and l f :: int
  defines "w \<equiv> \<lparr>file_current = names ! k, file_next = names ! (k + 1),
                 last_date = Some l, first_date = Some f\<rparr>"
  assumes bound: "k + 1 < length dfs" and named: "k + 1 < length names"
    and reach: "assert_time_difference_in_bookings (take (k + 1) dfs) names thr = (ws0, Inr ())"
    and lastA: "series_max (col_anfang (dfs ! k)) = Some l"
    and firstB: "series_min (col_anfang (dfs ! (k + 1))) = Some f"
    and gapped: "l < f"
  shows "(f - l \<le> timedelta_max \<and> - 999999999 \<le> thr div 24 \<and> thr div 24 \<le> 999999999 \<longrightarrow>
            (snd (gap_body dfs names thr k) = Inl (GapTooLarge thr (names ! k) (names ! (k + 1)))
               \<longleftrightarrow> f - l > thr * hour_ns)
          \<and> (f - l > thr * hour_ns \<longrightarrow>
                assert_time_difference_in_bookings dfs names thr
                  = (ws0, Inl (GapTooLarge thr (names ! k) (names ! (k + 1)))))
          \<and> (f - l \<le> thr * hour_ns \<longrightarrow>
                gap_body dfs names thr k = ([w], Inr ())
                \<and> assert_time_difference_in_bookings (take (k + 2) dfs) names thr
                    = (ws0 @ [w], Inr ())
                \<and> assert_time_difference_in_bookings dfs names thr
                    = (case for_each_log [Suc k..<length dfs - 1] (gap_body dfs names thr) of
                         (ws', r) \<Rightarrow> (ws0 @ w # ws', r))))
       \<and> (f - l > timedelta_max \<longrightarrow>
            assert_time_difference_in_bookings dfs names thr = (ws0, Inl OutOfBoundsDatetime))
       \<and> (f - l \<le> timedelta_max \<and> \<not> (- 999999999 \<le> thr div 24 \<and> thr div 24 \<le> 999999999) \<longrightarrow>
            assert_time_difference_in_bookings dfs names thr = (ws0, Inl OverflowError))
       \<and> (thr = threshold_hours_default \<longrightarrow>
            (f - l = 7 * hour_ns \<longrightarrow> snd (gap_body dfs names thr k)
                = Inl (GapTooLarge 6 (names ! k) (names ! (k + 1))))
            \<and> (f - l = 5 * hour_ns \<or> f - l = 6 * hour_ns \<longrightarrow>
                 gap_body dfs names thr k = ([w], Inr ())))"
proof -
  note body = gap_body_gapped [OF lastA firstB gapped named, of thr, folded w_def]
  have pre: "for_each_log [0..<k] (gap_body dfs names thr) = (ws0, Inr ())"
    using reach by (simp only: gap_prefix [OF bound])
  have k: "k < length dfs - 1" using bound by simp
  have r: "assert_time_difference_in_bookings dfs names thr =
      (case gap_body dfs names thr k of
         (ws, Inl e) \<Rightarrow> (ws0 @ ws, Inl e)
       | (ws, Inr _) \<Rightarrow>
           (case for_each_log [Suc k..<length dfs - 1] (gap_body dfs names thr) of
              (ws', r) \<Rightarrow> (ws0 @ ws @ ws', r)))"
    by (simp only: assert_time_difference_in_bookings_def for_each_log_reach [OF k pre])
  have "k + 1 < length (take (k + 2) dfs)" using bound by simp
  moreover have "take (k + 1) (take (k + 2) dfs) = take (k + 1) dfs" by (simp add: min_def)
  ultimately have pre2:
    "for_each_log [0..<k] (gap_body (take (k + 2) dfs) names thr) = (ws0, Inr ())"
    using reach gap_prefix [of k "take (k + 2) dfs" names thr] by simp
  have k2: "k < length (take (k + 2) dfs) - 1" using bound by simp
  have len2: "length (take (k + 2) dfs) - 1 = Suc k" using bound by simp
  have r2: "assert_time_difference_in_bookings (take (k + 2) dfs) names thr =
      (case gap_body dfs names thr k of
         (ws, Inl e) \<Rightarrow> (ws0 @ ws, Inl e)
       | (ws, Inr _) \<Rightarrow> (ws0 @ ws, Inr ()))"
    using for_each_log_reach [OF k2 pre2]
    by (simp only: assert_time_difference_in_bookings_def len2)
       (simp add: gap_body_take split: sum.splits prod.splits)
  have c1: "f - l \<le> timedelta_max \<and> - 999999999 \<le> thr div 24 \<and> thr div 24 \<le> 999999999 \<longrightarrow>
            (snd (gap_body dfs names thr k) = Inl (GapTooLarge thr (names ! k) (names ! (k + 1)))
               \<longleftrightarrow> f - l > thr * hour_ns)"
    by (auto simp: body)
  have c2: "f - l \<le> timedelta_max \<and> - 999999999 \<le> thr div 24 \<and> thr div 24 \<le> 999999999 \<longrightarrow>
          (f - l > thr * hour_ns \<longrightarrow>
                assert_time_difference_in_bookings dfs names thr
                  = (ws0, Inl (GapTooLarge thr (names ! k) (names ! (k + 1)))))"
    by (simp add: r body)
  have c3: "f - l \<le> timedelta_max \<and> - 999999999 \<le> thr div 24 \<and> thr div 24 \<le> 999999999 \<longrightarrow>
          (f - l \<le> thr * hour_ns \<longrightarrow>
                gap_body dfs names thr k = ([w], Inr ())
                \<and> assert_time_difference_in_bookings (take (k + 2) dfs) names thr
                    = (ws0 @ [w], Inr ())
                \<and> assert_time_difference_in_bookings dfs names thr
                    = (case for_each_log [Suc k..<length dfs - 1] (gap_body dfs names thr) of
                         (ws', r) \<Rightarrow> (ws0 @ w # ws', r)))"
    using r2 by (simp add: r body)
  have c4: "f - l > timedelta_max \<longrightarrow>
            assert_time_difference_in_bookings dfs names thr = (ws0, Inl OutOfBoundsDatetime)"
    by (simp add: r body)
  have c5: "f - l \<le> timedelta_max \<and> \<not> (- 999999999 \<le> thr div 24 \<and> thr div 24 \<le> 999999999) \<longrightarrow>
            assert_time_difference_in_bookings dfs names thr = (ws0, Inl OverflowError)"
    by (auto simp: r body)
  have c6: "thr = threshold_hours_default \<longrightarrow>
            (f - l = 7 * hour_ns \<longrightarrow> snd (gap_body dfs names thr k)
                = Inl (GapTooLarge 6 (names ! k) (names ! (k + 1))))
            \<and> (f - l = 5 * hour_ns \<or> f - l = 6 * hour_ns \<longrightarrow>
                 gap_body dfs names thr k = ([w], Inr ()))"
    using body by (auto simp: threshold_hours_default_def hour_ns_def timedelta_max_def)
  from c1 c2 c3 c4 c5 c6 show ?thesis by blast
qed

theorem gap_validation_outcome_witness:
  "1 + 1 < length [[booking 0 1], [booking (5 * hour_ns) 2], [booking (12 * hour_ns) 3]]
   \<and> 1 + 1 < length [''a.csv'', ''b.csv'', ''c.csv'']
   \<and> assert_time_difference_in_bookings
         (take (1 + 1) [[booking 0 1], [booking (5 * hour_ns) 2], [booking (12 * hour_ns) 3]])
         [''a.csv'', ''b.csv'', ''c.csv''] 6
       = ([\<lparr>file_current = ''a.csv'', file_next = ''b.csv'',
             last_date = Some 0, first_date = Some (5 * hour_ns)\<rparr>], Inr ())
   \<and> series_max (col_anfang [booking (5 * hour_ns) 2]) = Some (5 * hour_ns)
   \<and> series_min (col_anfang [booking (12 * hour_ns) 3]) = Some (12 * hour_ns)
   \<and> 5 * hour_ns < 12 * hour_ns
   \<and> 12 * hour_ns - 5 * hour_ns \<le> timedelta_max
   \<and> 12 * hour_ns - 5 * hour_ns > 6 * hour_ns
   \<and> assert_time_difference_in_bookings
         [[booking 0 1], [booking (5 * hour_ns) 2], [booking (12 * hour_ns) 3]]
         [''a.csv'', ''b.csv'', ''c.csv''] 6
       = ([\<lparr>file_current = ''a.csv'', file_next = ''b.csv'',
             last_date = Some 0, first_date = Some (5 * hour_ns)\<rparr>],
          Inl (GapTooLarge 6 ''b.csv'' ''c.csv''))"
proof -
  let ?D = "[[booking 0 1], [booking (5 * hour_ns) 2], [booking (12 * hour_ns) 3]]"
  let ?N = "[''a.csv'', ''b.csv'', ''c.csv'']"
  let ?w = "\<lparr>file_current = ''a.csv'', file_next = ''b.csv'',
             last_date = Some 0, first_date = Some (5 * hour_ns)\<rparr>"
  have h1: "1 + 1 < length ?D" and h2: "1 + 1 < length ?N" by simp_all
  have h3: "assert_time_difference_in_bookings (take (1 + 1) ?D) ?N 6 = ([?w], Inr ())"
    by (simp add: assert_time_difference_in_bookings_def gap_body_def series_max_def
        series_min_def col_anfang_def booking_def hour_ns_def timedelta_hours_def
        timedelta_max_def)
  have h4: "series_max (col_anfang (?D ! 1)) = Some (5 * hour_ns)"
    and h5: "series_min (col_anfang (?D ! (1 + 1))) = Some (12 * hour_ns)"
    by (simp_all add: series_max_def series_min_def col_anfang_def booking_def)
  have h6: "5 * hour_ns < 12 * hour_ns" and h7: "12 * hour_ns - 5 * hour_ns \<le> timedelta_max"
    and h8: "12 * hour_ns - 5 * hour_ns > 6 * hour_ns"
    and h9: "- 999999999 \<le> (6::int) div 24 \<and> (6::int) div 24 \<le> 999999999"
    by (simp_all add: hour_ns_def timedelta_max_def)
  from gap_validation_outcome [OF h1 h2 h3 h4 h5 h6] h1 h2 h3 h4 h5 h6 h7 h8 h9
  show ?thesis by simp
qed

text \<open>
  Outside those ranges the claim fails. Between a file that ends on 1 January 1700 and one
  that starts on 1 January 2200 the gap exceeds six hours, but the subtraction raises
  \<open>OutOfBoundsDatetime\<close> and GapTooLarge is never reached. With a threshold of \<open>10^11\<close>
  hours a gap of one hour is within the threshold, but \<open>timedelta(hours=...)\<close> raises
  \<open>OverflowError\<close> and no warning is logged.
\<close>

theorem gap_out_of_range_counterexample:
  "series_max (col_anfang [booking (- 8520336000000000000) 1]) = Some (- 8520336000000000000)
   \<and> series_min (col_anfang [booking 7258118400000000000 2]) = Some 7258118400000000000
   \<and> 7258118400000000000 - (- 8520336000000000000) > 6 * hour_ns
   \<and> assert_time_difference_in_bookings
         [[booking (- 8520336000000000000) 1], [booking 7258118400000000000 2]]
         [''a.csv'', ''b.csv''] 6
       = ([], Inl OutOfBoundsDatetime)
   \<and> series_max (col_anfang [booking 0 1]) = Some 0
   \<and> series_min (col_anfang [booking hour_ns 2]) = Some hour_ns
   \<and> hour_ns - 0 \<le> 100000000000 * hour_ns
   \<and> assert_time_difference_in_bookings
         [[booking 0 1], [booking hour_ns 2]] [''a.csv'', ''b.csv''] 100000000000
       = ([], Inl OverflowError)"
  by (simp add: assert_time_difference_in_bookings_def gap_body_def series_max_def
      series_min_def col_anfang_def booking_def hour_ns_def timedelta_hours_def
      timedelta_max_def)

section \<open>Classification of a boundary\<close>

lemma verify_prefix:
  assumes "k + 1 < length dfs"
  shows "verify_overlapping_bookings (take (k + 1) dfs) = for_each [0..<k] (overlap_body dfs)"
proof -
  have "length (take (k + 1) dfs) - 1 = k" using assms by simp
  then have "verify_overlapping_bookings (take (k + 1) dfs)
           = for_each [0..<k] (overlap_body (take (k + 1) dfs))"
    by (simp only: verify_overlapping_bookings_def)
  also have "\<dots> = for_each [0..<k] (overlap_body dfs)"
    by (rule for_each_cong) (simp add: overlap_body_take)
  finally show ?thesis .
qed

lemma verify_extend:
  assumes "k + 1 < length dfs"
  shows "verify_overlapping_bookings (take (k + 2) dfs) =
           (case verify_overlapping_bookings (take (k + 1) dfs) of
              Inl e \<Rightarrow> Inl e
            | Inr _ \<Rightarrow> overlap_body dfs k)"
proof -
  have "length (take (k + 2) dfs) - 1 = Suc k" using assms by simp
  then have "verify_overlapping_bookings (take (k + 2) dfs)
           = for_each [0..<Suc k] (overlap_body (take (k + 2) dfs))"
    by (simp only: verify_overlapping_bookings_def)
  also have "\<dots> = for_each [0..<Suc k] (overlap_body dfs)"
    by (rule for_each_cong) (auto intro!: overlap_body_take)
  also have "\<dots> = (case for_each [0..<k] (overlap_body dfs) of
              Inl e \<Rightarrow> Inl e | Inr _ \<Rightarrow> overlap_body dfs k)"
    by (simp add: for_each_append split: sum.splits)
  finally show ?thesis by (simp only: verify_prefix [OF assms])
qed

lemma gap_extend:
  assumes "k + 1 < length dfs"
  shows "assert_time_difference_in_bookings (take (k + 2) dfs) names thr =
           (case assert_time_difference_in_bookings (take (k + 1) dfs) names thr of
              (ws, Inl e) \<Rightarrow> (ws, Inl e)
            | (ws, Inr _) \<Rightarrow> (case gap_body dfs names thr k of (ws', r) \<Rightarrow> (ws @ ws', r)))"
proof -
  have "length (take (k + 2) dfs) - 1 = Suc k" using assms by simp
  then have "assert_time_difference_in_bookings (take (k + 2) dfs) names thr
           = for_each_log [0..<Suc k] (gap_body (take (k + 2) dfs) names thr)"
    by (simp only: assert_time_difference_in_bookings_def)
  also have "\<dots> = for_each_log [0..<Suc k] (gap_body dfs names thr)"
    by (rule for_each_log_cong) (auto intro!: gap_body_take)
  also have "\<dots> = (case for_each_log [0..<k] (gap_body dfs names thr) of
              (ws, Inl e) \<Rightarrow> (ws, Inl e)
            | (ws, Inr _) \<Rightarrow> (case gap_body dfs names thr k of (ws', r) \<Rightarrow> (ws @ ws', r)))"
    by (simp add: for_each_log_append split: sum.splits prod.splits)
  finally show ?thesis by (simp only: gap_prefix [OF assms])
qed

lemma gap_body_gapped_acts:
  assumes "\<not> ts_ge (series_max (col_anfang (dfs ! k))) (series_min (col_anfang (dfs ! (k + 1))))"
  shows "gap_body dfs names thr k \<noteq> ([], Inr ())"
  using assms by (auto simp: gap_body_def Let_def split: sum.splits)

text \<open>
  Claim C5. For every boundary \<open>k\<close> of the sequence, with \<open>A\<close> the record set \<open>k\<close> and \<open>B\<close>
  the record set \<open>k+1\<close>: the boundary is Overlapping exactly when
  \<open>max(A.anfang) >= min(B.anfang)\<close> and Gapped otherwise. At an Overlapping boundary the
  gap validator does nothing (its result up to and including \<open>k\<close> is its result up to
  \<open>k\<close>) and the overlap validator runs its two checks there; at a Gapped boundary the
  overlap validator does nothing and the gap validator, when it gets there, raises or logs
  a warning. Equality of the two dates is Overlapping, so it goes to the overlap
  validator.
\<close>

theorem boundary_classification:
  fixes dfs :: "dataframe list" and names :: "string list" and thr :: int and k :: nat
  defines "A \<equiv> dfs ! k" and "B \<equiv> dfs ! (k + 1)"
  defines "lastA \<equiv> series_max (col_anfang A)" and "firstB \<equiv> series_min (col_anfang B)"
  defines "checks \<equiv>
      (if length (filter (\<lambda>r. ts_ge (anfang r) firstB) A)
            \<noteq> length (filter (\<lambda>r. ts_le (anfang r) lastA) B)
       then Inl (OverlapLengthMismatch k (k + 1))
       else if set (col_fahrtneu_id (filter (\<lambda>r. ts_ge (anfang r) firstB) A))
            \<noteq> set (col_fahrtneu_id (filter (\<lambda>r. ts_le (anfang r) lastA) B))
       then Inl (OverlapIdentityMismatch k (k + 1))
       else Inr ())"
  assumes bound: "k + 1 < length dfs"
  shows "(classify A B = Overlapping \<longleftrightarrow> ts_ge lastA firstB)
       \<and> (classify A B = Gapped \<longleftrightarrow> \<not> ts_ge lastA firstB)
       \<and> (classify A B = Overlapping \<longrightarrow>
            gap_body dfs names thr k = ([], Inr ())
            \<and> assert_time_difference_in_bookings (take (k + 2) dfs) names thr
                = assert_time_difference_in_bookings (take (k + 1) dfs) names thr
            \<and> overlap_body dfs k = checks
            \<and> verify_overlapping_bookings (take (k + 2) dfs)
                = (case verify_overlapping_bookings (take (k + 1) dfs) of
                     Inl e \<Rightarrow> Inl e | Inr _ \<Rightarrow> checks))
       \<and> (classify A B = Gapped \<longrightarrow>
            overlap_body dfs k = Inr ()
            \<and> verify_overlapping_bookings (take (k + 2) dfs)
                = verify_overlapping_bookings (take (k + 1) dfs)
            \<and> gap_body dfs names thr k \<noteq> ([], Inr ())
            \<and> (\<forall>ws0. assert_time_difference_in_bookings (take (k + 1) dfs) names thr
                        = (ws0, Inr ()) \<longrightarrow>
                      assert_time_difference_in_bookings (take (k + 2) dfs) names thr
                        \<noteq> (ws0, Inr ())))
       \<and> (lastA = firstB \<and> lastA \<noteq> None \<longrightarrow> classify A B = Overlapping)"
proof -
  have c1: "classify A B = Overlapping \<longleftrightarrow> ts_ge lastA firstB"
    and c2: "classify A B = Gapped \<longleftrightarrow> \<not> ts_ge lastA firstB"
    by (simp_all add: classify_def lastA_def firstB_def)
  have g0: "gap_body dfs names thr k = ([], Inr ())" if "ts_ge lastA firstB"
    using that by (simp add: gap_body_def lastA_def firstB_def A_def B_def)
  have g1: "assert_time_difference_in_bookings (take (k + 2) dfs) names thr
                = assert_time_difference_in_bookings (take (k + 1) dfs) names thr"
    if "ts_ge lastA firstB"
    using gap_extend [OF bound, of names thr] g0 [OF that]
    by (simp split: prod.splits sum.splits)
  have o0: "overlap_body dfs k = checks" if "ts_ge lastA firstB"
    using that
    by (simp add: overlap_body_def Let_def checks_def lastA_def firstB_def A_def B_def)
  have o1: "verify_overlapping_bookings (take (k + 2) dfs)
                = (case verify_overlapping_bookings (take (k + 1) dfs) of
                     Inl e \<Rightarrow> Inl e | Inr _ \<Rightarrow> checks)"
    if "ts_ge lastA firstB"
    by (simp only: verify_extend [OF bound] o0 [OF that])
  have p0: "overlap_body dfs k = Inr ()" if "\<not> ts_ge lastA firstB"
    using that by (simp add: overlap_body_def lastA_def firstB_def A_def B_def)
  have p1: "verify_overlapping_bookings (take (k + 2) dfs)
                = verify_overlapping_bookings (take (k + 1) dfs)"
    if "\<not> ts_ge lastA firstB"
    using verify_extend [OF bound] p0 [OF that] by (simp split: sum.splits)
  have q0: "gap_body dfs names thr k \<noteq> ([], Inr ())" if "\<not> ts_ge lastA firstB"
    using that by (intro gap_body_gapped_acts) (simp add: lastA_def firstB_def A_def B_def)
  have q1: "assert_time_difference_in_bookings (take (k + 2) dfs) names thr \<noteq> (ws0, Inr ())"
    if "\<not> ts_ge lastA firstB"
      "assert_time_difference_in_bookings (take (k + 1) dfs) names thr = (ws0, Inr ())" for ws0
    using q0 [OF that(1)] gap_extend [OF bound, of names thr] that(2)
    by (cases "gap_body dfs names thr k") auto
  have e: "lastA = firstB \<and> lastA \<noteq> None \<longrightarrow> classify A B = Overlapping"
    unfolding c1 by (cases lastA; cases firstB) auto
  from c1 c2 g0 g1 o0 o1 p0 p1 q0 q1 e show ?thesis by blast
qed

theorem boundary_classification_witness:
  "1 + 1 < length [[booking 0 1], [booking 1 10, booking 4 11], [booking 4 11, booking 9 12]]
   \<and> series_max (col_anfang [booking 1 10, booking 4 11])
       = series_min (col_anfang [booking 4 11, booking 9 12])
   \<and> series_max (col_anfang [booking 1 10, booking 4 11]) \<noteq> None
   \<and> classify [booking 1 10, booking 4 11] [booking 4 11, booking 9 12] = Overlapping
   \<and> gap_body [[booking 0 1], [booking 1 10, booking 4 11], [booking 4 11, booking 9 12]]
         [''a.csv'', ''b.csv'', ''c.csv''] 6 1 = ([], Inr ())
   \<and> 1 + 1 < length [[booking 0 1], [booking 1 10, booking 4 11], [booking 5 11, booking 9 12]]
   \<and> classify [booking 1 10, booking 4 11] [booking 5 11, booking 9 12] = Gapped
   \<and> overlap_body [[booking 0 1], [booking 1 10, booking 4 11], [booking 5 11, booking 9 12]] 1
       = Inr ()
   \<and> gap_body [[booking 0 1], [booking 1 10, booking 4 11], [booking 5 11, booking 9 12]]
         [''a.csv'', ''b.csv'', ''c.csv''] 6 1 \<noteq> ([], Inr ())"
proof -
  let ?D1 = "[[booking 0 1], [booking 1 10, booking 4 11], [booking 4 11, booking 9 12]]"
  let ?D2 = "[[booking 0 1], [booking 1 10, booking 4 11], [booking 5 11, booking 9 12]]"
  have b1: "1 + 1 < length ?D1" and b2: "1 + 1 < length ?D2" by simp_all
  have e: "series_max (col_anfang (?D1 ! 1)) = series_min (col_anfang (?D1 ! (1 + 1)))"
    "series_max (col_anfang (?D1 ! 1)) \<noteq> None"
    by (simp_all add: series_max_def series_min_def col_anfang_def booking_def)
  have g: "classify (?D2 ! 1) (?D2 ! (1 + 1)) = Gapped"
    by (simp add: classify_def series_max_def series_min_def col_anfang_def booking_def)
  from boundary_classification [OF b1, of "[''a.csv'', ''b.csv'', ''c.csv'']" 6] e
  have o: "classify (?D1 ! 1) (?D1 ! (1 + 1)) = Overlapping
           \<and> gap_body ?D1 [''a.csv'', ''b.csv'', ''c.csv''] 6 1 = ([], Inr ())"
    by blast
  from boundary_classification [OF b2, of "[''a.csv'', ''b.csv'', ''c.csv'']" 6] g
  have p: "overlap_body ?D2 1 = Inr () \<and> gap_body ?D2 [''a.csv'', ''b.csv'', ''c.csv''] 6 1 \<noteq> ([], Inr ())"
    by blast
  from b1 b2 e g o p show ?thesis by simp
qed

section \<open>Validation before the merge\<close>

lemma executed_pass: "for_each xs body = Inr () \<Longrightarrow> executed xs body = xs"
  by (induction xs) (auto split: sum.splits)

lemma executed_subset: "set (executed xs body) \<subseteq> set xs"
  by (induction xs) (auto split: sum.splits)

lemma for_each_log_snd:
  "snd (for_each_log xs body) = for_each xs (\<lambda>i. snd (body i))"
  by (induction xs) (auto split: sum.splits prod.splits)

lemma record_event_simps:
  "frames (record_event ev w) = frames w"
  "logged (record_event ev w) = logged w"
  "trace (record_event ev w) = trace w @ [ev]"
  by (simp_all add: record_event_def)

lemma overlap_loop_exec:
  "for_each_exec xs overlap_step w =
     (for_each xs (overlap_body (frames w)),
      w\<lparr>trace := trace w @ map OverlapChecked (executed xs (overlap_body (frames w)))\<rparr>)"
proof (induction xs arbitrary: w)
  case Nil
  show ?case by simp
next
  case (Cons i xs)
  show ?case
  proof (cases "overlap_body (frames w) i")
    case (Inl e)
    then show ?thesis by (simp add: overlap_step_def record_event_def)
  next
    case (Inr u)
    then have s: "overlap_step i w = (Inr u, record_event (OverlapChecked i) w)"
      by (simp add: overlap_step_def)
    show ?thesis using Inr by (simp add: s Cons.IH record_event_def)
  qed
qed

lemma gap_loop_exec:
  "for_each_exec xs (gap_step names thr) w =
     (snd (for_each_log xs (gap_body (frames w) names thr)),
      w\<lparr>logged := logged w @ fst (for_each_log xs (gap_body (frames w) names thr)),
        trace := trace w
          @ map GapChecked (executed xs (\<lambda>i. snd (gap_body (frames w) names thr i)))\<rparr>)"
proof (induction xs arbitrary: w)
  case Nil
  show ?case by simp
next
  case (Cons i xs)
  obtain ws r where b: "gap_body (frames w) names thr i = (ws, r)"
    by (cases "gap_body (frames w) names thr i")
  show ?case
  proof (cases r)
    case (Inl e)
    with b show ?thesis by (simp add: gap_step_def record_event_def)
  next
    case (Inr u)
    with b have s: "gap_step names thr i w
        = (Inr u, record_event (GapChecked i) (w\<lparr>logged := logged w @ ws\<rparr>))"
      by (simp add: gap_step_def)
    show ?thesis using b Inr
      by (simp add: s Cons.IH record_event_def split: prod.splits)
  qed
qed

lemma merge_fold_exec:
  "fold merge_step xs (m, w) =
     (foldl (merge_body (frames w)) m xs, w\<lparr>trace := trace w @ map MergeStep xs\<rparr>)"
proof (induction xs arbitrary: m w)
  case Nil
  show ?case by simp
next
  case (Cons i xs)
  show ?case by (simp add: Cons.IH record_event_def)
qed

lemma merge_frames_loop:
  "merge_nonoverlapping_dfs (PyList (map DataFrame (A # rest)))
     = Inr (foldl (merge_body (A # rest)) A [1..<length (A # rest)])"
  using frames_all_DataFrame [of rest]
  by (simp add: merge_nonoverlapping_dfs_def frames_roundtrip del: upt_Suc)

lemma merge_exec_eq:
  "merge_nonoverlapping_dfs_exec w =
     (merge_nonoverlapping_dfs (PyList (map DataFrame (frames w))),
      w\<lparr>trace := trace w @ MergeCalled # map MergeStep [1..<length (frames w)]\<rparr>)"
proof (cases "frames w")
  case Nil
  then show ?thesis
    by (simp add: merge_nonoverlapping_dfs_exec_def merge_nonoverlapping_dfs_def
        record_event_def Let_def)
next
  case (Cons A rest)
  have "merge_nonoverlapping_dfs (PyList (map DataFrame (frames w)))
     = Inr (foldl (merge_body (frames w)) A [1..<length (frames w)])"
    unfolding Cons by (rule merge_frames_loop)
  then show ?thesis
    using Cons
    by (simp add: merge_nonoverlapping_dfs_exec_def Let_def record_event_simps
        merge_fold_exec record_event_def del: upt_Suc)
qed

lemma verify_exec_eq:
  "verify_overlapping_bookings_exec w =
     (verify_overlapping_bookings (frames w),
      w\<lparr>trace := trace w @ map OverlapChecked
          (executed [0..<length (frames w) - 1] (overlap_body (frames w)))\<rparr>)"
  by (simp only: verify_overlapping_bookings_exec_def overlap_loop_exec
      verify_overlapping_bookings_def)

lemma gap_exec_eq:
  "assert_time_difference_in_bookings_exec names thr w =
     (snd (assert_time_difference_in_bookings (frames w) names thr),
      w\<lparr>logged := logged w @ fst (assert_time_difference_in_bookings (frames w) names thr),
        trace := trace w @ map GapChecked
          (executed [0..<length (frames w) - 1] (\<lambda>i. snd (gap_body (frames w) names thr i)))\<rparr>)"
  by (simp only: assert_time_difference_in_bookings_exec_def gap_loop_exec
      assert_time_difference_in_bookings_def)

lemma for_each_log_pass:
  "snd (for_each_log xs body) = Inr () \<longleftrightarrow> (\<forall>i\<in>set xs. snd (body i) = Inr ())"
  by (induction xs) (auto split: sum.splits prod.splits)

lemma verify_pass_iff:
  "verify_overlapping_bookings dfs = Inr ()
     \<longleftrightarrow> (\<forall>k<length dfs - 1. overlap_body dfs k = Inr ())"
  by (auto simp: verify_overlapping_bookings_def for_each_pass)

lemma gap_pass_iff:
  "snd (assert_time_difference_in_bookings dfs names thr) = Inr ()
     \<longleftrightarrow> (\<forall>k<length dfs - 1. snd (gap_body dfs names thr k) = Inr ())"
  by (auto simp: assert_time_difference_in_bookings_def for_each_log_pass)

lemma pipeline_exec_eq:
  assumes "load_and_sort_fahrten_data read_csv to_datetime csv_files = Inr (dfs, names)"
  shows "combine_and_verify_booking_data_exec read_csv to_datetime csv_files =
     (case verify_overlapping_bookings dfs of
        Inl e \<Rightarrow>
          (Inl e, \<lparr>frames = dfs, logged = [],
             trace = map OverlapChecked (executed [0..<length dfs - 1] (overlap_body dfs))\<rparr>)
      | Inr _ \<Rightarrow>
          (case snd (assert_time_difference_in_bookings dfs names threshold_hours_default) of
             Inl e \<Rightarrow>
               (Inl e, \<lparr>frames = dfs,
                  logged = fst (assert_time_difference_in_bookings dfs names
                                  threshold_hours_default),
                  trace = map OverlapChecked (executed [0..<length dfs - 1] (overlap_body dfs))
                    @ map GapChecked (executed [0..<length dfs - 1]
                        (\<lambda>i. snd (gap_body dfs names threshold_hours_default i)))\<rparr>)
           | Inr _ \<Rightarrow>
               (merge_nonoverlapping_dfs (PyList (map DataFrame dfs)),
                \<lparr>frames = dfs,
                  logged = fst (assert_time_difference_in_bookings dfs names
                                  threshold_hours_default),
                  trace = map OverlapChecked (executed [0..<length dfs - 1] (overlap_body dfs))
                    @ map GapChecked (executed [0..<length dfs - 1]
                        (\<lambda>i. snd (gap_body dfs names threshold_hours_default i)))
                    @ MergeCalled # map MergeStep [1..<length dfs]\<rparr>)))"
  by (simp add: combine_and_verify_booking_data_exec_def assms verify_exec_eq gap_exec_eq
      merge_exec_eq del: upt_Suc split: sum.splits)

lemma no_merge_in_checks:
  "\<not> merge_event e" if "e \<in> set (map OverlapChecked xs @ map GapChecked ys)"
  using that by auto

lemma merge_events_last:
  assumes "\<forall>e\<in>set cs. \<not> merge_event e" "\<forall>e\<in>set ms. merge_event e"
    "i < j" "j < length (cs @ ms)" "merge_event ((cs @ ms) ! i)"
  shows "merge_event ((cs @ ms) ! j)"
proof -
  have "\<not> i < length cs" using assms(1,5) by (auto simp: nth_append)
  then have "\<not> j < length cs" using assms(3) by simp
  then show ?thesis using assms(2,4) by (simp add: nth_append)
qed

text \<open>
  Claim C6. In \<open>combine_and_verify_booking_data\<close>, once the files are loaded, the overlap
  validator and then the gap validator run over the boundaries before the merger is
  called. The run on the store gives the same result and the same warnings as the
  function above, and its sequence of steps is: the passes of the overlap loop, up to the
  first that raises; if none raised, the passes of the gap loop, up to the first that
  raises; and only if none raised, the call of the merger and its steps. So no step of
  validation comes after a step of the merger, the merger is called only when every
  boundary has passed both validators, and a failure at any boundary ends the run with
  that validator's error, without a call of the merger. Neither validator changes a frame
  of the store, from whatever state it is run, and at the end of the run the frames are
  those that were loaded.
\<close>

theorem validation_before_merge:
  fixes read_csv :: "string \<Rightarrow> 'raw result" and to_datetime :: "'raw \<Rightarrow> dataframe result"
  assumes load: "load_and_sort_fahrten_data read_csv to_datetime csv_files = Inr (dfs, names)"
  defines "run \<equiv> combine_and_verify_booking_data read_csv to_datetime csv_files"
  defines "gaps \<equiv> assert_time_difference_in_bookings dfs names threshold_hours_default"
  defines "exec \<equiv> combine_and_verify_booking_data_exec read_csv to_datetime csv_files"
  defines "n \<equiv> length dfs"
  defines "overlap_passes \<equiv> map OverlapChecked (executed [0..<n - 1] (overlap_body dfs))"
  defines "gap_passes \<equiv> map GapChecked
      (executed [0..<n - 1] (\<lambda>i. snd (gap_body dfs names threshold_hours_default i)))"
  shows "(\<forall>e. verify_overlapping_bookings dfs = Inl e \<longrightarrow> run = ([], Inl e))
       \<and> (\<forall>e. verify_overlapping_bookings dfs = Inr () \<and> snd gaps = Inl e \<longrightarrow>
             run = (fst gaps, Inl e))
       \<and> (verify_overlapping_bookings dfs = Inr () \<and> snd gaps = Inr () \<longrightarrow>
             run = (fst gaps, merge_nonoverlapping_dfs (PyList (map DataFrame dfs))))
       \<and> ((\<exists>k<n - 1. overlap_body dfs k \<noteq> Inr ()
                \<or> snd (gap_body dfs names threshold_hours_default k) \<noteq> Inr ()) \<longrightarrow>
             (\<exists>e. snd run = Inl e
                \<and> (verify_overlapping_bookings dfs = Inl e \<or> snd gaps = Inl e)))
       \<and> ((\<exists>m. snd run = Inr m) \<longrightarrow>
             (\<forall>k<n - 1. overlap_body dfs k = Inr ()
                \<and> snd (gap_body dfs names threshold_hours_default k) = Inr ()))
       \<and> fst exec = snd run \<and> logged (snd exec) = fst run
       \<and> frames (snd exec) = dfs
       \<and> (\<forall>w. frames (snd (verify_overlapping_bookings_exec w)) = frames w)
       \<and> (\<forall>nm thr w. frames (snd (assert_time_difference_in_bookings_exec nm thr w)) = frames w)
       \<and> trace (snd exec) =
           overlap_passes
           @ (if verify_overlapping_bookings dfs = Inr ()
              then gap_passes
                   @ (if snd gaps = Inr () then MergeCalled # map MergeStep [1..<n] else [])
              else [])
       \<and> (\<forall>i j. i < j \<and> j < length (trace (snd exec)) \<and> merge_event (trace (snd exec) ! i)
             \<longrightarrow> merge_event (trace (snd exec) ! j))
       \<and> ((\<exists>e\<in>set (trace (snd exec)). merge_event e)
            \<longleftrightarrow> verify_overlapping_bookings dfs = Inr () \<and> snd gaps = Inr ())
       \<and> ((\<exists>k<n - 1. overlap_body dfs k \<noteq> Inr ()
                \<or> snd (gap_body dfs names threshold_hours_default k) \<noteq> Inr ()) \<longrightarrow>
             (\<forall>e\<in>set (trace (snd exec)). \<not> merge_event e))
       \<and> (verify_overlapping_bookings dfs = Inr () \<and> snd gaps = Inr () \<longrightarrow>
             trace (snd exec) = map OverlapChecked [0..<n - 1] @ map GapChecked [0..<n - 1]
               @ MergeCalled # map MergeStep [1..<n])"
proof -
  have a: "run = ([], Inl e)" if "verify_overlapping_bookings dfs = Inl e" for e
    using that by (simp add: run_def combine_and_verify_booking_data_def load)
  have b: "run = (fst gaps, Inl e)"
    if "verify_overlapping_bookings dfs = Inr ()" "snd gaps = Inl e" for e
    using that by (cases gaps) (simp add: run_def combine_and_verify_booking_data_def load gaps_def)
  have c: "run = (fst gaps, merge_nonoverlapping_dfs (PyList (map DataFrame dfs)))"
    if "verify_overlapping_bookings dfs = Inr ()" "snd gaps = Inr ()"
    using that by (cases gaps) (simp add: run_def combine_and_verify_booking_data_def load gaps_def)
  have fails: "verify_overlapping_bookings dfs \<noteq> Inr () \<or> snd gaps \<noteq> Inr ()"
    if "\<exists>k<n - 1. overlap_body dfs k \<noteq> Inr ()
                \<or> snd (gap_body dfs names threshold_hours_default k) \<noteq> Inr ()"
    using that unfolding gaps_def gap_pass_iff verify_pass_iff n_def by blast
  have d: "\<exists>e. snd run = Inl e \<and> (verify_overlapping_bookings dfs = Inl e \<or> snd gaps = Inl e)"
    if "\<exists>k<n - 1. overlap_body dfs k \<noteq> Inr ()
                \<or> snd (gap_body dfs names threshold_hours_default k) \<noteq> Inr ()"
  proof (cases "verify_overlapping_bookings dfs")
    case (Inl e)
    with a show ?thesis by auto
  next
    case (Inr u)
    then have v: "verify_overlapping_bookings dfs = Inr ()" by simp
    with fails [OF that] have "snd gaps \<noteq> Inr ()" by simp
    then obtain e where "snd gaps = Inl e" by (cases "snd gaps") auto
    with b [OF v] show ?thesis by auto
  qed
  have e: "\<forall>k<n - 1. overlap_body dfs k = Inr ()
                \<and> snd (gap_body dfs names threshold_hours_default k) = Inr ()"
    if "\<exists>m. snd run = Inr m"
  proof (rule ccontr)
    assume "\<not> ?thesis"
    then have "\<exists>k<n - 1. overlap_body dfs k \<noteq> Inr ()
                \<or> snd (gap_body dfs names threshold_hours_default k) \<noteq> Inr ()" by blast
    from d [OF this] that show False by auto
  qed
  note x = pipeline_exec_eq [OF load, folded gaps_def n_def, folded overlap_passes_def gap_passes_def]
  have f: "fst exec = snd run \<and> logged (snd exec) = fst run \<and> frames (snd exec) = dfs"
  proof (cases "verify_overlapping_bookings dfs")
    case (Inl e)
    with a [OF Inl] show ?thesis by (simp add: exec_def x)
  next
    case (Inr u)
    then have v: "verify_overlapping_bookings dfs = Inr ()" by simp
    show ?thesis
    proof (cases "snd gaps")
      case (Inl e)
      with b [OF v Inl] v show ?thesis by (simp add: exec_def x)
    next
      case (Inr u')
      then have g: "snd gaps = Inr ()" by simp
      with c [OF v g] v show ?thesis by (simp add: exec_def x)
    qed
  qed
  have g1: "\<forall>w. frames (snd (verify_overlapping_bookings_exec w)) = frames w"
    by (simp add: verify_exec_eq)
  have g2: "\<forall>nm thr w. frames (snd (assert_time_difference_in_bookings_exec nm thr w)) = frames w"
    by (simp add: gap_exec_eq)
  have t: "trace (snd exec) =
           overlap_passes
           @ (if verify_overlapping_bookings dfs = Inr ()
              then gap_passes
                   @ (if snd gaps = Inr () then MergeCalled # map MergeStep [1..<n] else [])
              else [])"
    by (cases "verify_overlapping_bookings dfs"; cases "snd gaps") (simp_all add: exec_def x)
  have m: "(\<exists>e\<in>set (trace (snd exec)). merge_event e)
            \<longleftrightarrow> verify_overlapping_bookings dfs = Inr () \<and> snd gaps = Inr ()"
  proof -
    have m1: "MergeCalled \<in> set (trace (snd exec))"
      if "verify_overlapping_bookings dfs = Inr () \<and> snd gaps = Inr ()"
      using that by (simp add: t)
    have m2: "\<forall>e\<in>set (trace (snd exec)). \<not> merge_event e"
      if "\<not> (verify_overlapping_bookings dfs = Inr () \<and> snd gaps = Inr ())"
      using that by (auto simp: t overlap_passes_def gap_passes_def)
    have "merge_event MergeCalled" by simp
    with m1 m2 show ?thesis by blast
  qed
  have nm: "\<forall>e\<in>set (trace (snd exec)). \<not> merge_event e"
    if "\<exists>k<n - 1. overlap_body dfs k \<noteq> Inr ()
                \<or> snd (gap_body dfs names threshold_hours_default k) \<noteq> Inr ()"
    using fails [OF that] m by blast
  have s: "trace (snd exec) = map OverlapChecked [0..<n - 1] @ map GapChecked [0..<n - 1]
               @ MergeCalled # map MergeStep [1..<n]"
    if "verify_overlapping_bookings dfs = Inr ()" "snd gaps = Inr ()"
  proof -
    have "executed [0..<n - 1] (overlap_body dfs) = [0..<n - 1]"
      using that(1) unfolding verify_overlapping_bookings_def n_def by (rule executed_pass)
    moreover have "executed [0..<n - 1] (\<lambda>i. snd (gap_body dfs names threshold_hours_default i))
        = [0..<n - 1]"
      using that(2)
      unfolding gaps_def assert_time_difference_in_bookings_def n_def for_each_log_snd
      by (rule executed_pass)
    ultimately show ?thesis using that by (simp add: t overlap_passes_def gap_passes_def)
  qed
  have ord: "\<forall>i j. i < j \<and> j < length (trace (snd exec)) \<and> merge_event (trace (snd exec) ! i)
             \<longrightarrow> merge_event (trace (snd exec) ! j)"
  proof -
    obtain cs ms where sp: "trace (snd exec) = cs @ ms"
      "\<forall>e\<in>set cs. \<not> merge_event e" "\<forall>e\<in>set ms. merge_event e"
    proof
      show "trace (snd exec) =
          (overlap_passes @ (if verify_overlapping_bookings dfs = Inr () then gap_passes else []))
          @ (if verify_overlapping_bookings dfs = Inr () \<and> snd gaps = Inr ()
             then MergeCalled # map MergeStep [1..<n] else [])"
        by (simp add: t)
      show "\<forall>e\<in>set (overlap_passes
                @ (if verify_overlapping_bookings dfs = Inr () then gap_passes else [])).
              \<not> merge_event e"
        by (auto simp: overlap_passes_def gap_passes_def)
      show "\<forall>e\<in>set (if verify_overlapping_bookings dfs = Inr () \<and> snd gaps = Inr ()
                        then MergeCalled # map MergeStep [1..<n] else []). merge_event e"
        by auto
    qed
    show ?thesis unfolding sp(1) using merge_events_last [OF sp(2,3)] by blast
  qed
  from a b c d e f g1 g2 t ord m nm s show ?thesis by blast
qed

theorem validation_before_merge_witness:
  "load_and_sort_fahrten_data (\<lambda>f. Inr f)
     (\<lambda>f. Inr (if f = ''a.csv'' then [booking 1 1]
               else if f = ''b.csv'' then [booking 2 2, booking 5 3]
               else [booking 5 3, booking 5 4]))
     [''a.csv'', ''b.csv'', ''c.csv'']
   = Inr ([[booking 1 1], [booking 2 2, booking 5 3], [booking 5 3, booking 5 4]],
          [''a.csv'', ''b.csv'', ''c.csv''])
   \<and> verify_overlapping_bookings
         [[booking 1 1], [booking 2 2, booking 5 3], [booking 5 3, booking 5 4]]
       = Inl (OverlapLengthMismatch 1 2)
   \<and> combine_and_verify_booking_data (\<lambda>f. Inr f)
     (\<lambda>f. Inr (if f = ''a.csv'' then [booking 1 1]
               else if f = ''b.csv'' then [booking 2 2, booking 5 3]
               else [booking 5 3, booking 5 4]))
     [''a.csv'', ''b.csv'', ''c.csv'']
   = ([], Inl (OverlapLengthMismatch 1 2))
   \<and> combine_and_verify_booking_data_exec (\<lambda>f. Inr f)
     (\<lambda>f. Inr (if f = ''a.csv'' then [booking 1 1]
               else if f = ''b.csv'' then [booking 2 2, booking 5 3]
               else [booking 5 3, booking 5 4]))
     [''a.csv'', ''b.csv'', ''c.csv'']
   = (Inl (OverlapLengthMismatch 1 2),
      \<lparr>frames = [[booking 1 1], [booking 2 2, booking 5 3], [booking 5 3, booking 5 4]],
        logged = [], trace = [OverlapChecked 0, OverlapChecked 1]\<rparr>)
   \<and> load_and_sort_fahrten_data (\<lambda>f. Inr f)
     (\<lambda>f. Inr (if f = ''a.csv'' then [booking 1 1] else [booking 2 2]))
     [''a.csv'', ''b.csv'']
   = Inr ([[booking 1 1], [booking 2 2]], [''a.csv'', ''b.csv''])
   \<and> combine_and_verify_booking_data_exec (\<lambda>f. Inr f)
     (\<lambda>f. Inr (if f = ''a.csv'' then [booking 1 1] else [booking 2 2]))
     [''a.csv'', ''b.csv'']
   = (Inr [booking 1 1, booking 2 2],
      \<lparr>frames = [[booking 1 1], [booking 2 2]],
        logged = [\<lparr>file_current = ''a.csv'', file_next = ''b.csv'',
                   last_date = Some 1, first_date = Some 2\<rparr>],
        trace = [OverlapChecked 0, GapChecked 0, MergeCalled, MergeStep 1]\<rparr>)"
proof -
  let ?td = "(\<lambda>f. Inr (if f = ''a.csv'' then [booking 1 1]
               else if f = ''b.csv'' then [booking 2 2, booking 5 3]
               else [booking 5 3, booking 5 4])) :: string \<Rightarrow> dataframe result"
  let ?D = "[[booking 1 1], [booking 2 2, booking 5 3], [booking 5 3, booking 5 4]]"
  let ?N = "[''a.csv'', ''b.csv'', ''c.csv'']"
  let ?td2 = "(\<lambda>f. Inr (if f = ''a.csv'' then [booking 1 1] else [booking 2 2])) :: string \<Rightarrow> dataframe result"
  let ?D2 = "[[booking 1 1], [booking 2 2]]"
  let ?N2 = "[''a.csv'', ''b.csv'']"
  let ?x = "combine_and_verify_booking_data_exec (\<lambda>f. Inr f) ?td ?N"
  let ?x2 = "combine_and_verify_booking_data_exec (\<lambda>f. Inr f) ?td2 ?N2"
  have l: "load_and_sort_fahrten_data (\<lambda>f. Inr f) ?td ?N = Inr (?D, ?N)"
    by (simp add: load_and_sort_fahrten_data_def less_eq_char_def less_char_def)
  have v: "verify_overlapping_bookings ?D = Inl (OverlapLengthMismatch 1 2)"
    by (simp add: verify_overlapping_bookings_def overlap_body_def Let_def series_max_def
        series_min_def col_anfang_def col_fahrtneu_id_def booking_def upt_rec)
  have ex: "executed [0..<length ?D - 1] (overlap_body ?D) = [0, 1]"
    by (simp add: overlap_body_def Let_def series_max_def
        series_min_def col_anfang_def col_fahrtneu_id_def booking_def upt_rec)
  note t = validation_before_merge [OF l]
  from t v have r: "combine_and_verify_booking_data (\<lambda>f. Inr f) ?td ?N
      = ([], Inl (OverlapLengthMismatch 1 2))" by blast
  from t have "fst ?x = snd (combine_and_verify_booking_data (\<lambda>f. Inr f) ?td ?N)"
    "logged (snd ?x) = fst (combine_and_verify_booking_data (\<lambda>f. Inr f) ?td ?N)"
    "frames (snd ?x) = ?D"
    "trace (snd ?x) = map OverlapChecked (executed [0..<length ?D - 1] (overlap_body ?D))
           @ (if verify_overlapping_bookings ?D = Inr ()
              then map GapChecked (executed [0..<length ?D - 1]
                     (\<lambda>i. snd (gap_body ?D ?N threshold_hours_default i)))
                   @ (if snd (assert_time_difference_in_bookings ?D ?N threshold_hours_default)
                         = Inr ()
                      then MergeCalled # map MergeStep [1..<length ?D] else [])
              else [])"
    by blast+
  then have x: "?x = (Inl (OverlapLengthMismatch 1 2),
      \<lparr>frames = ?D, logged = [], trace = [OverlapChecked 0, OverlapChecked 1]\<rparr>)"
    unfolding r ex v by (cases ?x) auto
  have l2: "load_and_sort_fahrten_data (\<lambda>f. Inr f) ?td2 ?N2 = Inr (?D2, ?N2)"
    by (simp add: load_and_sort_fahrten_data_def less_eq_char_def less_char_def)
  have v2: "verify_overlapping_bookings ?D2 = Inr ()"
    by (simp add: verify_overlapping_bookings_def overlap_body_def Let_def series_max_def
        series_min_def col_anfang_def col_fahrtneu_id_def booking_def)
  have g2: "assert_time_difference_in_bookings ?D2 ?N2 threshold_hours_default
      = ([\<lparr>file_current = ''a.csv'', file_next = ''b.csv'',
                   last_date = Some 1, first_date = Some 2\<rparr>], Inr ())"
    by (simp add: assert_time_difference_in_bookings_def gap_body_def Let_def series_max_def
        series_min_def col_anfang_def booking_def threshold_hours_default_def
        timedelta_hours_def timedelta_max_def hour_ns_def)
  have m2: "merge_nonoverlapping_dfs (PyList (map DataFrame ?D2)) = Inr [booking 1 1, booking 2 2]"
    by (simp add: merge_nonoverlapping_dfs_def merge_body_def Let_def series_max_def
        col_anfang_def booking_def)
  note t2 = validation_before_merge [OF l2]
  from t2 v2 g2 have r2: "combine_and_verify_booking_data (\<lambda>f. Inr f) ?td2 ?N2
      = (fst (assert_time_difference_in_bookings ?D2 ?N2 threshold_hours_default),
         merge_nonoverlapping_dfs (PyList (map DataFrame ?D2)))"
    by simp
  from t2 v2 g2 have "fst ?x2 = snd (combine_and_verify_booking_data (\<lambda>f. Inr f) ?td2 ?N2)"
    "logged (snd ?x2) = fst (combine_and_verify_booking_data (\<lambda>f. Inr f) ?td2 ?N2)"
    "frames (snd ?x2) = ?D2"
    "trace (snd ?x2) = map OverlapChecked [0..<length ?D2 - 1]
        @ map GapChecked [0..<length ?D2 - 1] @ MergeCalled # map MergeStep [1..<length ?D2]"
    by simp_all
  then have x2: "?x2 = (Inr [booking 1 1, booking 2 2],
      \<lparr>frames = ?D2,
        logged = [\<lparr>file_current = ''a.csv'', file_next = ''b.csv'',
                   last_date = Some 1, first_date = Some 2\<rparr>],
        trace = [OverlapChecked 0, GapChecked 0, MergeCalled, MergeStep 1]\<rparr>)"
    unfolding r2 g2 m2 by (cases ?x2) auto
  from l v r x l2 x2 show ?thesis by simp
qed

section \<open>What a validation error carries\<close>

lemma map_result_nth:
  "map_result f xs = Inr ys \<Longrightarrow>
     length ys = length xs \<and> (\<forall>i<length xs. f (xs ! i) = Inr (ys ! i))"
proof (induction xs arbitrary: ys)
  case Nil
  then show ?case by simp
next
  case (Cons x xs)
  then obtain y ys' where y: "f x = Inr y" "map_result f xs = Inr ys'" "ys = y # ys'"
    by (auto split: sum.splits)
  from Cons.IH [OF y(2)] y show ?case by (auto simp: nth_Cons split: nat.splits)
qed

lemma load_sources:
  assumes "load_and_sort_fahrten_data read_csv to_datetime csv_files = Inr (loaded, nms)"
  shows "nms = csv_files \<and> length loaded = length csv_files
       \<and> (\<forall>i<length loaded. \<exists>raw. read_csv (sort csv_files ! i) = Inr raw
                                  \<and> to_datetime raw = Inr (loaded ! i))"
proof -
  from assms obtain raws where r: "map_result read_csv (sort csv_files) = Inr raws"
    "map_result to_datetime raws = Inr loaded" "nms = csv_files"
    by (auto simp: load_and_sort_fahrten_data_def Let_def split: sum.splits)
  from map_result_nth [OF r(1)] map_result_nth [OF r(2)] r(3) show ?thesis by auto
qed

lemma gap_body_assertion:
  "snd (gap_body dfs names thr i) = Inl (AssertionError m) \<Longrightarrow>
     i + 1 < length names \<and> m = GapGreater thr (names ! i) (names ! (i + 1))"
  by (auto simp: gap_body_def Let_def timedelta_hours_def split: if_splits sum.splits
      elim: ts_sub.elims)

lemma verify_error_boundary:
  assumes "verify_overlapping_bookings dfs = Inl e"
  shows "\<exists>k. k + 1 < length dfs \<and> overlap_body dfs k = Inl e
         \<and> (e = OverlapLengthMismatch k (k + 1) \<or> e = OverlapIdentityMismatch k (k + 1))"
proof -
  from assms obtain k where k: "k \<in> set [0..<length dfs - 1]" "overlap_body dfs k = Inl e"
    unfolding verify_overlapping_bookings_def by (blast dest: for_each_fail)
  then have "k + 1 < length dfs" by auto
  with k overlap_body_error [OF k(2)] show ?thesis by blast
qed

lemma gap_error_boundary:
  assumes "snd (assert_time_difference_in_bookings dfs names thr) = Inl (AssertionError m)"
  shows "\<exists>k. k + 1 < length dfs \<and> k + 1 < length names
         \<and> snd (gap_body dfs names thr k) = Inl (AssertionError m)
         \<and> m = GapGreater thr (names ! k) (names ! (k + 1))"
proof -
  from assms obtain k where k: "k \<in> set [0..<length dfs - 1]"
    "snd (gap_body dfs names thr k) = Inl (AssertionError m)"
    unfolding assert_time_difference_in_bookings_def by (blast dest: for_each_log_fail)
  then have "k + 1 < length dfs" by auto
  with k gap_body_assertion [OF k(2)] show ?thesis by blast
qed

lemma merge_no_assertion:
  "merge_nonoverlapping_dfs v \<noteq> Inl (AssertionError m)"
  by (auto simp: merge_nonoverlapping_dfs_def split: pyobj.splits list.splits)

text \<open>
  Claim C8, as amended. An error of the overlap validator (OverlapLengthMismatch,
  OverlapIdentityMismatch) comes from one offending boundary \<open>k\<close> and carries the two
  positions \<open>k\<close> and \<open>k+1\<close> in the sequence, and no file name: the validator is not given
  the file names. GapTooLarge comes from one offending boundary \<open>k\<close> and carries the
  threshold and the entries \<open>k\<close> and \<open>k+1\<close> of the list of file names given to the gap
  validator. When the caller's list of files is already sorted, every such error of the
  pipeline comes from a boundary \<open>k\<close> whose two record sets were loaded from the files
  \<open>k\<close> and \<open>k+1\<close> of that list, and GapTooLarge carries those two file names.
\<close>

theorem validation_errors_carry:
  fixes read_csv :: "string \<Rightarrow> 'raw result" and to_datetime :: "'raw \<Rightarrow> dataframe result"
  shows "(verify_overlapping_bookings dfs = Inl e \<longrightarrow>
      (\<exists>k. k + 1 < length dfs \<and> overlap_body dfs k = Inl e
         \<and> (e = OverlapLengthMismatch k (k + 1) \<or> e = OverlapIdentityMismatch k (k + 1))))
   \<and> (snd (assert_time_difference_in_bookings dfs names thr) = Inl (AssertionError m) \<longrightarrow>
      (\<exists>k. k + 1 < length dfs \<and> k + 1 < length names
         \<and> snd (gap_body dfs names thr k) = Inl (AssertionError m)
         \<and> m = GapGreater thr (names ! k) (names ! (k + 1))))
   \<and> (load_and_sort_fahrten_data read_csv to_datetime csv_files = Inr (loaded, nms)
        \<and> sort csv_files = csv_files
        \<and> snd (combine_and_verify_booking_data read_csv to_datetime csv_files)
            = Inl (AssertionError m') \<longrightarrow>
      (\<exists>k. k + 1 < length loaded
         \<and> (\<exists>raw. read_csv (csv_files ! k) = Inr raw \<and> to_datetime raw = Inr (loaded ! k))
         \<and> (\<exists>raw. read_csv (csv_files ! (k + 1)) = Inr raw
                  \<and> to_datetime raw = Inr (loaded ! (k + 1)))
         \<and> (overlap_body loaded k = Inl (AssertionError m')
               \<and> (m' = DifferentLengths k (k + 1) \<or> m' = DoNotAlign k (k + 1))
             \<or> snd (gap_body loaded csv_files threshold_hours_default k)
                 = Inl (AssertionError m')
               \<and> m' = GapGreater threshold_hours_default
                        (csv_files ! k) (csv_files ! (k + 1)))))"
proof -
  have c: "\<exists>k. k + 1 < length loaded
         \<and> (\<exists>raw. read_csv (csv_files ! k) = Inr raw \<and> to_datetime raw = Inr (loaded ! k))
         \<and> (\<exists>raw. read_csv (csv_files ! (k + 1)) = Inr raw
                  \<and> to_datetime raw = Inr (loaded ! (k + 1)))
         \<and> (overlap_body loaded k = Inl (AssertionError m')
               \<and> (m' = DifferentLengths k (k + 1) \<or> m' = DoNotAlign k (k + 1))
             \<or> snd (gap_body loaded csv_files threshold_hours_default k)
                 = Inl (AssertionError m')
               \<and> m' = GapGreater threshold_hours_default
                        (csv_files ! k) (csv_files ! (k + 1)))"
    if l: "load_and_sort_fahrten_data read_csv to_datetime csv_files = Inr (loaded, nms)"
      and s: "sort csv_files = csv_files"
      and r: "snd (combine_and_verify_booking_data read_csv to_datetime csv_files)
            = Inl (AssertionError m')"
  proof -
    from load_sources [OF l] s have n: "nms = csv_files"
      and src: "\<forall>i<length loaded. \<exists>raw. read_csv (csv_files ! i) = Inr raw
                                  \<and> to_datetime raw = Inr (loaded ! i)"
      by simp_all
    show ?thesis
    proof (cases "verify_overlapping_bookings loaded")
      case (Inl e)
      with r l have "e = AssertionError m'"
        by (simp add: combine_and_verify_booking_data_def)
      with verify_error_boundary [OF Inl] obtain k where k: "k + 1 < length loaded"
        "overlap_body loaded k = Inl (AssertionError m')"
        "m' = DifferentLengths k (k + 1) \<or> m' = DoNotAlign k (k + 1)"
        by auto
      with src have "(\<exists>raw. read_csv (csv_files ! k) = Inr raw \<and> to_datetime raw = Inr (loaded ! k))
         \<and> (\<exists>raw. read_csv (csv_files ! (k + 1)) = Inr raw
                  \<and> to_datetime raw = Inr (loaded ! (k + 1)))"
        by simp
      with k show ?thesis by blast
    next
      case (Inr u)
      obtain ws g where g: "assert_time_difference_in_bookings loaded csv_files
          threshold_hours_default = (ws, g)"
        by (cases "assert_time_difference_in_bookings loaded csv_files threshold_hours_default")
      with r l Inr n have "g = Inl (AssertionError m')"
        by (cases g) (auto simp: combine_and_verify_booking_data_def merge_no_assertion)
      with g have "snd (assert_time_difference_in_bookings loaded csv_files
          threshold_hours_default) = Inl (AssertionError m')" by simp
      from gap_error_boundary [OF this] obtain k where k: "k + 1 < length loaded"
        "snd (gap_body loaded csv_files threshold_hours_default k) = Inl (AssertionError m')"
        "m' = GapGreater threshold_hours_default (csv_files ! k) (csv_files ! (k + 1))"
        by auto
      with src have "(\<exists>raw. read_csv (csv_files ! k) = Inr raw \<and> to_datetime raw = Inr (loaded ! k))
         \<and> (\<exists>raw. read_csv (csv_files ! (k + 1)) = Inr raw
                  \<and> to_datetime raw = Inr (loaded ! (k + 1)))"
        by simp
      with k show ?thesis by blast
    qed
  qed
  from verify_error_boundary [of dfs e] gap_error_boundary [of dfs names thr m] c
  show ?thesis by blast
qed

theorem validation_errors_carry_witness:
  "verify_overlapping_bookings [[booking 1 1, booking 2 2], [booking 2 2, booking 2 3]]
     = Inl (OverlapLengthMismatch 0 1)
   \<and> (\<exists>k. k + 1 < length [[booking 1 1, booking 2 2], [booking 2 2, booking 2 3]]
          \<and> overlap_body [[booking 1 1, booking 2 2], [booking 2 2, booking 2 3]] k
              = Inl (OverlapLengthMismatch 0 1))
   \<and> load_and_sort_fahrten_data (\<lambda>f. Inr f)
         (\<lambda>f. Inr (if f = ''a.csv'' then [booking 0 1] else [booking (7 * hour_ns) 2]))
         [''a.csv'', ''b.csv'']
       = Inr ([[booking 0 1], [booking (7 * hour_ns) 2]], [''a.csv'', ''b.csv''])
   \<and> sort [''a.csv'', ''b.csv''] = [''a.csv'', ''b.csv'']
   \<and> snd (combine_and_verify_booking_data (\<lambda>f. Inr f)
         (\<lambda>f. Inr (if f = ''a.csv'' then [booking 0 1] else [booking (7 * hour_ns) 2]))
         [''a.csv'', ''b.csv''])
       = Inl (GapTooLarge 6 ''a.csv'' ''b.csv'')
   \<and> (\<exists>k. k + 1 < length [[booking 0 1], [booking (7 * hour_ns) 2]]
          \<and> GapGreater 6 ''a.csv'' ''b.csv''
              = GapGreater threshold_hours_default
                  ([''a.csv'', ''b.csv''] ! k) ([''a.csv'', ''b.csv''] ! (k + 1)))"
proof -
  let ?O = "[[booking 1 1, booking 2 2], [booking 2 2, booking 2 3]]"
  let ?td = "(\<lambda>f. Inr (if f = ''a.csv'' then [booking 0 1] else [booking (7 * hour_ns) 2])) :: string \<Rightarrow> dataframe result"
  let ?G = "[[booking 0 1], [booking (7 * hour_ns) 2]]"
  let ?N = "[''a.csv'', ''b.csv'']"
  have v: "verify_overlapping_bookings ?O = Inl (OverlapLengthMismatch 0 1)"
    by (simp add: verify_overlapping_bookings_def overlap_body_def Let_def series_max_def
        series_min_def col_anfang_def col_fahrtneu_id_def booking_def)
  have l: "load_and_sort_fahrten_data (\<lambda>f. Inr f) ?td ?N = Inr (?G, ?N)"
    by (simp add: load_and_sort_fahrten_data_def less_eq_char_def less_char_def)
  have s: "sort ?N = ?N" by (simp add: less_eq_char_def less_char_def)
  have r: "snd (combine_and_verify_booking_data (\<lambda>f. Inr f) ?td ?N)
      = Inl (GapTooLarge 6 ''a.csv'' ''b.csv'')"
    by (simp add: combine_and_verify_booking_data_def l verify_overlapping_bookings_def
        overlap_body_def assert_time_difference_in_bookings_def gap_body_def Let_def
        series_max_def series_min_def col_anfang_def booking_def threshold_hours_default_def
        timedelta_hours_def timedelta_max_def hour_ns_def)
  from validation_errors_carry
    [where dfs = ?O and e = "OverlapLengthMismatch 0 1"] v
  have a: "\<exists>k. k + 1 < length ?O \<and> overlap_body ?O k = Inl (OverlapLengthMismatch 0 1)"
    by blast
  from validation_errors_carry
    [where read_csv = "\<lambda>f. Inr f" and to_datetime = ?td and csv_files = ?N
       and loaded = ?G and nms = ?N and m' = "GapGreater 6 ''a.csv'' ''b.csv''"] l s r
  have b: "\<exists>k. k + 1 < length ?G
          \<and> GapGreater 6 ''a.csv'' ''b.csv''
              = GapGreater threshold_hours_default (?N ! k) (?N ! (k + 1))"
    by (auto simp: overlap_body_error dest!: overlap_body_error)
  from v a l s r b show ?thesis by blast
qed

text \<open>
  The same two frames under different file names give the same overlap error: it names
  no file. And on the unsorted list \<open>c.csv\<close>, \<open>a.csv\<close>, \<open>b.csv\<close> the frames are checked in the
  order \<open>a.csv\<close>, \<open>b.csv\<close>, \<open>c.csv\<close>; the gap of seven hours is at the second boundary,
  between the frames of \<open>b.csv\<close> and \<open>c.csv\<close>, and GapTooLarge names \<open>a.csv\<close> and \<open>b.csv\<close>.
\<close>

theorem error_file_names_counterexample:
  "snd (combine_and_verify_booking_data (\<lambda>f. Inr f)
     (\<lambda>f. Inr (if f = ''a.csv'' \<or> f = ''c.csv'' then [booking 1 1, booking 2 2]
               else [booking 2 2, booking 2 3]))
     [''a.csv'', ''b.csv''])
   = Inl (AssertionError (DifferentLengths 0 1))
   \<and> snd (combine_and_verify_booking_data (\<lambda>f. Inr f)
     (\<lambda>f. Inr (if f = ''a.csv'' \<or> f = ''c.csv'' then [booking 1 1, booking 2 2]
               else [booking 2 2, booking 2 3]))
     [''c.csv'', ''d.csv''])
   = Inl (AssertionError (DifferentLengths 0 1))
   \<and> load_and_sort_fahrten_data (\<lambda>f. Inr f)
     (\<lambda>f. Inr (if f = ''a.csv'' then [booking 0 1]
               else if f = ''b.csv'' then [booking hour_ns 2]
               else [booking (8 * hour_ns) 3]))
     [''c.csv'', ''a.csv'', ''b.csv'']
   = Inr ([[booking 0 1], [booking hour_ns 2], [booking (8 * hour_ns) 3]],
          [''c.csv'', ''a.csv'', ''b.csv''])
   \<and> snd (combine_and_verify_booking_data (\<lambda>f. Inr f)
     (\<lambda>f. Inr (if f = ''a.csv'' then [booking 0 1]
               else if f = ''b.csv'' then [booking hour_ns 2]
               else [booking (8 * hour_ns) 3]))
     [''c.csv'', ''a.csv'', ''b.csv''])
   = Inl (AssertionError (GapGreater 6 ''a.csv'' ''b.csv''))
   \<and> snd (gap_body [[booking 0 1], [booking hour_ns 2], [booking (8 * hour_ns) 3]]
           [''c.csv'', ''a.csv'', ''b.csv''] 6 0) = Inr ()
   \<and> snd (gap_body [[booking 0 1], [booking hour_ns 2], [booking (8 * hour_ns) 3]]
           [''c.csv'', ''a.csv'', ''b.csv''] 6 1)
       = Inl (AssertionError (GapGreater 6 ''a.csv'' ''b.csv''))"
  by (simp add: combine_and_verify_booking_data_def load_and_sort_fahrten_data_def
      less_eq_char_def less_char_def verify_overlapping_bookings_def overlap_body_def
      assert_time_difference_in_bookings_def gap_body_def Let_def
      series_max_def series_min_def col_anfang_def col_fahrtneu_id_def booking_def
      threshold_hours_default_def timedelta_hours_def timedelta_max_def hour_ns_def upt_rec)

end
